theory Spec2Isabelle
  imports Main "HOL-Library.Char_ord"
begin

section \<open>The Route53 janitor of \<^verbatim>\<open>aws-janitor/resources/route53.go\<close>\<close>

text \<open>
  The file sweeps the DNS record sets that ephemeral test clusters leave behind in
  Route53. This theory embeds its functions and proves the properties the
  specification states about them.

  Conventions of the embedding:
  \<^item> a Go \<^verbatim>\<open>*string\<close> is a \<open>string option\<close>, \<open>None\<close> being \<^verbatim>\<open>nil\<close>; the SDK's
    \<^verbatim>\<open>aws.StringValue\<close> reads it;
  \<^item> a \<^verbatim>\<open>*p\<close> on a \<^verbatim>\<open>*string\<close> is a branch: \<^verbatim>\<open>nil\<close> gives \<open>Inl NilDereference\<close>, the
    panic of the Go runtime;
  \<^item> a slice is a list, the \<^verbatim>\<open>nil\<close> slice being \<open>[]\<close>;
  \<^item> the variables a closure captures and assigns are fields of the state its model
    takes and returns; the tracker \<^verbatim>\<open>set\<close> is written \<open>s\<close>;
  \<^item> \<^verbatim>\<open>logrus\<close> output has no model: no function of the file reads it back.
\<close>

subsection \<open>SDK values\<close>

definition StringValue :: "string option \<Rightarrow> string" where
  "StringValue p = (case p of None \<Rightarrow> [] | Some s \<Rightarrow> s)"

text \<open>\<^verbatim>\<open>route53.HostedZone\<close>: the fields the file reads.\<close>

record HostedZone =
  hz_Id :: "string option"
  hz_Name :: "string option"

text \<open>\<^verbatim>\<open>route53.ResourceRecordSet\<close>: the fields the file reads.\<close>

record ResourceRecordSet =
  rrs_Name :: "string option"
  rrs_Type :: "string option"

subsection \<open>Which zones and records are managed\<close>

definition zoneIsManaged :: "HostedZone \<Rightarrow> bool" where
  "zoneIsManaged z =
     (let name = StringValue (hz_Name z)
      in if ''test-cncf-aws.k8s.io.'' = name then True else False)"

text \<open>
  The four patterns of \<^verbatim>\<open>managedNameRegexes\<close> use a small part of the regular
  expression syntax: the anchor \<^verbatim>\<open>^\<close>, literal characters, and a character class of
  ranges repeated between a least and a greatest number of times. A pattern is the
  list of its atoms after the anchor.
\<close>

datatype atom =
  Lit char
  | Class "(char \<times> char) list" nat nat

definition inClass :: "(char \<times> char) list \<Rightarrow> char \<Rightarrow> bool" where
  "inClass rs c = list_ex (\<lambda>(lo, hi). lo \<le> c \<and> c \<le> hi) rs"

text \<open>
  \<open>MatchPrefix as s\<close>: some prefix of \<open>s\<close> matches the atoms \<open>as\<close> in sequence. A
  repeated class may stop once its least count is reached and may go on while its
  greatest count is not.
\<close>

fun MatchPrefix :: "atom list \<Rightarrow> string \<Rightarrow> bool" where
  "MatchPrefix [] s = True"
| "MatchPrefix (Lit c # as) s =
     (case s of [] \<Rightarrow> False | x # xs \<Rightarrow> x = c \<and> MatchPrefix as xs)"
| "MatchPrefix (Class rs lo hi # as) s =
     ((lo = 0 \<and> MatchPrefix as s) \<or>
      (0 < hi \<and> (case s of [] \<Rightarrow> False
                 | x # xs \<Rightarrow> inClass rs x \<and> MatchPrefix (Class rs (lo - 1) (hi - 1) # as) xs)))"

text \<open>
  What the atoms mean, to check the matcher against: the strings an atom matches, the
  strings a sequence of atoms matches, and a string of which some prefix is in a set.
\<close>

fun atomLang :: "atom \<Rightarrow> string set" where
  "atomLang (Lit c) = {[c]}"
| "atomLang (Class rs lo hi) = {w. lo \<le> length w \<and> length w \<le> hi \<and> list_all (inClass rs) w}"

fun seqLang :: "atom list \<Rightarrow> string set" where
  "seqLang [] = {[]}"
| "seqLang (a # as) = {u @ v | u v. u \<in> atomLang a \<and> v \<in> seqLang as}"

definition somePrefixIn :: "string set \<Rightarrow> string \<Rightarrow> bool" where
  "somePrefixIn L s \<longleftrightarrow> (\<exists>u v. s = u @ v \<and> u \<in> L)"

text \<open>
  \<^verbatim>\<open>(*Regexp).MatchString\<close> on a pattern that starts with \<^verbatim>\<open>^\<close> and has no flags: a
  match has to start at the first character and may end anywhere.
\<close>

definition MatchString :: "atom list \<Rightarrow> string \<Rightarrow> bool" where
  "MatchString re s = MatchPrefix re s"

definition lit :: "string \<Rightarrow> atom list" where
  "lit s = map Lit s"

definition alnum :: "(char \<times> char) list" where
  "alnum = [(CHR ''0'', CHR ''9''), (CHR ''a'', CHR ''z'')]"

definition hex :: "(char \<times> char) list" where
  "hex = [(CHR ''0'', CHR ''9''), (CHR ''a'', CHR ''f'')]"

definition lower :: "(char \<times> char) list" where
  "lower = [(CHR ''a'', CHR ''z'')]"

text \<open>\<^verbatim>\<open>e2e-[0-9a-z]{1,10}-[0-9a-f]{5}\.\<close>, the tail all four patterns share.\<close>

definition e2eTail :: "atom list" where
  "e2eTail = lit ''e2e-'' @ [Class alnum 1 10] @ lit ''-'' @ [Class hex 5 5] @ lit ''.''"

definition managedNameRegexes :: "atom list list" where
  "managedNameRegexes =
     [lit ''api.'' @ e2eTail,
      lit ''api.internal.'' @ e2eTail,
      lit ''etcd-'' @ [Class lower 1 1] @ lit ''.internal.'' @ e2eTail,
      lit ''etcd-events-'' @ [Class lower 1 1] @ lit ''.internal.'' @ e2eTail]"

text \<open>The \<^verbatim>\<open>for ... range managedNameRegexes\<close> loop of \<^verbatim>\<open>resourceRecordSetIsManaged\<close>.\<close>

fun anyRegexMatches :: "atom list list \<Rightarrow> string \<Rightarrow> bool" where
  "anyRegexMatches [] name = False"
| "anyRegexMatches (managedNameRegex # rest) name =
     (if MatchString managedNameRegex name then True else anyRegexMatches rest name)"

definition resourceRecordSetIsManaged :: "ResourceRecordSet \<Rightarrow> bool" where
  "resourceRecordSetIsManaged rrs =
     (if ''A'' \<noteq> StringValue (rrs_Type rrs) then False
      else let name = StringValue (rrs_Name rrs)
           in anyRegexMatches managedNameRegexes name)"

subsection \<open>Resource identity\<close>

text \<open>\<^verbatim>\<open>route53ResourceRecordSet\<close>: a record set together with its zone.\<close>

record route53ResourceRecordSet =
  r_zone :: HostedZone
  r_obj :: ResourceRecordSet

definition ARN :: "route53ResourceRecordSet \<Rightarrow> string" where
  "ARN r = ''route53::'' @ StringValue (hz_Id (r_zone r)) @ ''::'' @
           StringValue (rrs_Type (r_obj r)) @ ''::'' @ StringValue (rrs_Name (r_obj r))"

definition ResourceKey :: "route53ResourceRecordSet \<Rightarrow> string" where
  "ResourceKey r = ARN r"

subsection \<open>Errors, panics and the service\<close>

text \<open>
  An error is one the provider's SDK returned, or one that \<^verbatim>\<open>errors.Wrapf\<close> built around
  another with a format string and its arguments.
\<close>

datatype error =
  ServiceError string
  | Wrapped error string "string list"

definition Wrapf :: "error option \<Rightarrow> string \<Rightarrow> string list \<Rightarrow> error option" where
  "Wrapf err format args = (case err of None \<Rightarrow> None | Some e \<Rightarrow> Some (Wrapped e format args))"

datatype panic = NilDereference

text \<open>\<^verbatim>\<open>Options\<close>: the fields the file reads besides the session.\<close>

record Options =
  Account :: string
  Region :: string
  DryRun :: bool

record Change =
  ch_Action :: string
  ch_ResourceRecordSet :: ResourceRecordSet

record ChangeBatch =
  cb_Changes :: "Change list"

record ChangeResourceRecordSetsInput =
  in_HostedZoneId :: "string option"
  in_ChangeBatch :: ChangeBatch

text \<open>
  A call of \<^verbatim>\<open>ChangeResourceRecordSets\<close> that was issued: the request and the error the
  service answered with, if any.
\<close>

type_synonym call = "ChangeResourceRecordSetsInput \<times> error option"

text \<open>
  The service behind \<^verbatim>\<open>svc\<close> is a parameter of the model. A listing is the pages the
  service delivers, in order, and the error that ends the listing, if any. The
  answer to a change request may depend on the calls issued before it.
\<close>

record Route53 =
  zonePages :: "HostedZone list list \<times> error option"
  recordPages :: "string option \<Rightarrow> ResourceRecordSet list list \<times> error option"
  changeResult :: "call list \<Rightarrow> ChangeResourceRecordSetsInput \<Rightarrow> error option"

text \<open>
  The SDK's paginator, \<^verbatim>\<open>for p.Next() { if !fn(p.Page(), ...) { break } }; return p.Err()\<close>:
  each page goes to the callback until the callback returns false, the pages end or
  a request fails. After a \<^verbatim>\<open>break\<close> the error is \<^verbatim>\<open>nil\<close>. Both callbacks of the file
  ignore the second argument, which is left out. A panic of the callback unwinds
  through the paginator.
\<close>

fun Pages :: "'p list \<Rightarrow> error option \<Rightarrow> ('p \<Rightarrow> 'st \<Rightarrow> panic + bool \<times> 'st) \<Rightarrow> 'st
    \<Rightarrow> panic + error option \<times> 'st" where
  "Pages [] err fn st = Inr (err, st)"
| "Pages (p # ps) err fn st =
     (case fn p st of
        Inl x \<Rightarrow> Inl x
      | Inr (continue, st') \<Rightarrow> if continue then Pages ps err fn st' else Inr (None, st'))"

definition ListHostedZonesPages :: "Route53 \<Rightarrow> (HostedZone list \<Rightarrow> 'st \<Rightarrow> panic + bool \<times> 'st) \<Rightarrow> 'st
    \<Rightarrow> panic + error option \<times> 'st" where
  "ListHostedZonesPages svc fn st = Pages (fst (zonePages svc)) (snd (zonePages svc)) fn st"

definition ListResourceRecordSetsPages :: "Route53 \<Rightarrow> string option
    \<Rightarrow> (ResourceRecordSet list \<Rightarrow> 'st \<Rightarrow> panic + bool \<times> 'st) \<Rightarrow> 'st
    \<Rightarrow> panic + error option \<times> 'st" where
  "ListResourceRecordSetsPages svc hostedZoneId fn st =
     Pages (fst (recordPages svc hostedZoneId)) (snd (recordPages svc hostedZoneId)) fn st"

definition ChangeResourceRecordSets :: "Route53 \<Rightarrow> ChangeResourceRecordSetsInput \<Rightarrow> call list
    \<Rightarrow> error option \<times> call list" where
  "ChangeResourceRecordSets svc deleteReq calls =
     (let err = changeResult svc calls deleteReq in (err, calls @ [(deleteReq, err)]))"

subsection \<open>The tracker\<close>

text \<open>
  \<^verbatim>\<open>Set\<close> is declared in another file of the package. This file assigns to its map
  \<^verbatim>\<open>firstSeen\<close>; whatever else it holds is the record's extension. \<^verbatim>\<open>set.Mark\<close> and
  \<^verbatim>\<open>NewSet\<close> are parameters of the functions that call them, and so is the clock that
  \<^verbatim>\<open>time.Now\<close> reads.
\<close>

type_synonym Time = nat

record resources_Set =
  firstSeen :: "string \<rightharpoonup> Time"

type_synonym 'm MarkFn =
  "'m resources_Set_scheme \<Rightarrow> route53ResourceRecordSet \<Rightarrow> bool \<times> 'm resources_Set_scheme"

subsection \<open>\<^verbatim>\<open>route53ResourceRecordSetsForZone\<close>\<close>

text \<open>
  The closure \<^verbatim>\<open>recordsPageFunc\<close> over one page. It captures \<^verbatim>\<open>toDelete\<close> and \<^verbatim>\<open>set\<close>
  (\<open>s\<close> in the model).
  Line 89 reads \<^verbatim>\<open>*rrs.Name\<close> when \<^verbatim>\<open>Mark\<close> has answered true.
\<close>

fun recordsPageFunc :: "'m MarkFn \<Rightarrow> HostedZone \<Rightarrow> ResourceRecordSet list
    \<Rightarrow> route53ResourceRecordSet list \<times> 'm resources_Set_scheme
    \<Rightarrow> panic + bool \<times> route53ResourceRecordSet list \<times> 'm resources_Set_scheme" where
  "recordsPageFunc Mark zone [] st = Inr (True, st)"
| "recordsPageFunc Mark zone (rrs # records) (toDelete, s) =
     (if \<not> resourceRecordSetIsManaged rrs then recordsPageFunc Mark zone records (toDelete, s)
      else
        let o' = \<lparr>r_zone = zone, r_obj = rrs\<rparr> in
        case Mark s o' of
          (marked, s') \<Rightarrow>
            if marked then
              (case rrs_Name rrs of
                 None \<Rightarrow> Inl NilDereference
               | Some name \<Rightarrow> recordsPageFunc Mark zone records (toDelete, s'))
            else recordsPageFunc Mark zone records (toDelete, s'))"

text \<open>The function returns \<^verbatim>\<open>(toDelete, err)\<close>; the tracker it has marked is the third part.\<close>

definition route53ResourceRecordSetsForZone :: "Route53 \<Rightarrow> 'm MarkFn \<Rightarrow> HostedZone
    \<Rightarrow> 'm resources_Set_scheme
    \<Rightarrow> panic + (route53ResourceRecordSet list \<times> error option) \<times> 'm resources_Set_scheme" where
  "route53ResourceRecordSetsForZone svc Mark zone s =
     (case ListResourceRecordSetsPages svc (hz_Id zone) (recordsPageFunc Mark zone) ([], s) of
        Inl x \<Rightarrow> Inl x
      | Inr (err, toDelete, s') \<Rightarrow>
          (case err of
             Some e \<Rightarrow> Inr (([], Some e), s')
           | None \<Rightarrow> Inr ((toDelete, None), s')))"

subsection \<open>\<^verbatim>\<open>MarkAndSweep\<close>\<close>

text \<open>
  What \<^verbatim>\<open>pageFunc\<close> captures and assigns: the tracker, \<^verbatim>\<open>listError\<close>, and through
  \<^verbatim>\<open>svc\<close> the change requests issued so far.
\<close>

record 'm sweepState =
  st_set :: "'m resources_Set_scheme"
  st_listError :: "error option"
  st_calls :: "call list"

text \<open>Lines 126 to 129: the change that deletes a candidate.\<close>

definition deleteChange :: "route53ResourceRecordSet \<Rightarrow> Change" where
  "deleteChange rrs = \<lparr>ch_Action = ''DELETE'', ch_ResourceRecordSet = r_obj rrs\<rparr>"

text \<open>
  Lines 134 to 153, the loop \<^verbatim>\<open>for len(changes) != 0\<close>: at most 1000 changes go into one
  request. An error of the request is logged and nothing else.
\<close>

function deleteChunks :: "Route53 \<Rightarrow> HostedZone \<Rightarrow> Change list \<Rightarrow> call list \<Rightarrow> call list" where
  "deleteChunks svc z changes calls =
     (if length changes \<noteq> 0 then
        let chunk = (if length changes > 1000 then take 1000 changes else changes);
            changes' = (if length changes > 1000 then drop 1000 changes else []);
            deleteReq = \<lparr>in_HostedZoneId = hz_Id z, in_ChangeBatch = \<lparr>cb_Changes = chunk\<rparr>\<rparr>
        in case ChangeResourceRecordSets svc deleteReq calls of
             (err, calls') \<Rightarrow> deleteChunks svc z changes' calls'
      else calls)"
  by pat_completeness auto
termination
  by (relation "measure (\<lambda>(svc, z, changes, calls). length changes)") (auto split: if_splits)

text \<open>
  The per-zone lister that \<^verbatim>\<open>pageFunc\<close> calls is a parameter here, so that what the
  sweep does with the candidates can be stated for every list of candidates;
  \<open>MarkAndSweep\<close> below passes \<open>route53ResourceRecordSetsForZone\<close>, as line 115 does.
\<close>

type_synonym 'm lister =
  "HostedZone \<Rightarrow> 'm resources_Set_scheme
   \<Rightarrow> panic + (route53ResourceRecordSet list \<times> error option) \<times> 'm resources_Set_scheme"

fun pageFunc :: "'m lister \<Rightarrow> Options \<Rightarrow> Route53 \<Rightarrow> HostedZone list \<Rightarrow> 'm sweepState
    \<Rightarrow> panic + bool \<times> 'm sweepState" where
  "pageFunc forZone opts svc [] st = Inr (True, st)"
| "pageFunc forZone opts svc (z # zones) st =
     (if \<not> zoneIsManaged z then pageFunc forZone opts svc zones st
      else
        case forZone z (st_set st) of
          Inl x \<Rightarrow> Inl x
        | Inr ((toDelete, err), s') \<Rightarrow>
            (case err of
               Some e \<Rightarrow> Inr (False, st\<lparr>st_set := s', st_listError := Some e\<rparr>)
             | None \<Rightarrow>
                 if DryRun opts then pageFunc forZone opts svc zones (st\<lparr>st_set := s'\<rparr>)
                 else
                   let changes = map deleteChange toDelete
                   in pageFunc forZone opts svc zones
                        (st\<lparr>st_set := s', st_calls := deleteChunks svc z changes (st_calls st)\<rparr>)))"

text \<open>
  The result is the error returned, the tracker as the sweep leaves it, and the change
  requests it has issued.
\<close>

definition sweepWith :: "'m lister \<Rightarrow> Options \<Rightarrow> Route53 \<Rightarrow> 'm resources_Set_scheme
    \<Rightarrow> panic + error option \<times> 'm resources_Set_scheme \<times> call list" where
  "sweepWith forZone opts svc s =
     (case ListHostedZonesPages svc (pageFunc forZone opts svc)
             \<lparr>st_set = s, st_listError = None, st_calls = []\<rparr> of
        Inl x \<Rightarrow> Inl x
      | Inr (err, st) \<Rightarrow>
          (case st_listError st of
             Some listError \<Rightarrow> Inr (Some listError, st_set st, st_calls st)
           | None \<Rightarrow>
               (case err of
                  Some e \<Rightarrow> Inr (Some e, st_set st, st_calls st)
                | None \<Rightarrow> Inr (None, st_set st, st_calls st))))"

definition MarkAndSweep :: "'m MarkFn \<Rightarrow> Options \<Rightarrow> Route53 \<Rightarrow> 'm resources_Set_scheme
    \<Rightarrow> panic + error option \<times> 'm resources_Set_scheme \<times> call list" where
  "MarkAndSweep Mark opts svc s =
     sweepWith (route53ResourceRecordSetsForZone svc Mark) opts svc s"

subsection \<open>\<^verbatim>\<open>ListAll\<close>\<close>

text \<open>
  Lines 185 to 191, the loop of the inner callback over one page, \<open>now\<close> being the time
  read at line 184.
\<close>

fun recordFirstSeen :: "HostedZone \<Rightarrow> Time \<Rightarrow> ResourceRecordSet list \<Rightarrow> 'm resources_Set_scheme
    \<Rightarrow> 'm resources_Set_scheme" where
  "recordFirstSeen z now [] s = s"
| "recordFirstSeen z now (recordSet # recordSets) s =
     (let arn = ARN \<lparr>r_zone = z, r_obj = recordSet\<rparr>
      in recordFirstSeen z now recordSets (s\<lparr>firstSeen := (firstSeen s)(arn \<mapsto> now)\<rparr>))"

text \<open>
  What the callbacks of \<^verbatim>\<open>ListAll\<close> capture: the set, \<^verbatim>\<open>rrsErr\<close>, and the clock, of which
  the state counts the readings: \<open>Now k\<close> is what reading number \<open>k\<close> returns.
\<close>

record 'm listState =
  ls_set :: "'m resources_Set_scheme"
  ls_rrsErr :: "error option"
  ls_clock :: nat

definition recordSetsPageFunc :: "(nat \<Rightarrow> Time) \<Rightarrow> HostedZone \<Rightarrow> ResourceRecordSet list
    \<Rightarrow> 'm resources_Set_scheme \<times> nat \<Rightarrow> panic + bool \<times> 'm resources_Set_scheme \<times> nat" where
  "recordSetsPageFunc Now z recordSets st =
     (case st of (s, clock) \<Rightarrow>
        let now = Now clock
        in Inr (True, recordFirstSeen z now recordSets s, Suc clock))"

text \<open>
  Lines 178 to 200. Line 195 reads \<^verbatim>\<open>*z.Id\<close> for the message of the wrapped error.
\<close>

fun zonesPageFunc :: "(nat \<Rightarrow> Time) \<Rightarrow> Options \<Rightarrow> Route53 \<Rightarrow> HostedZone list \<Rightarrow> 'm listState
    \<Rightarrow> panic + bool \<times> 'm listState" where
  "zonesPageFunc Now opts svc [] st = Inr (True, st)"
| "zonesPageFunc Now opts svc (z # zones) st =
     (if \<not> zoneIsManaged z then zonesPageFunc Now opts svc zones st
      else
        case ListResourceRecordSetsPages svc (hz_Id z) (recordSetsPageFunc Now z)
               (ls_set st, ls_clock st) of
          Inl x \<Rightarrow> Inl x
        | Inr (err, s', clock') \<Rightarrow>
            (case err of
               Some e \<Rightarrow>
                 (case hz_Id z of
                    None \<Rightarrow> Inl NilDereference
                  | Some zoneId \<Rightarrow>
                      Inr (False, st\<lparr>ls_set := s', ls_clock := clock',
                             ls_rrsErr := Wrapf (Some e)
                               ''couldn't describe route53 resources for %q in %q zone %q''
                               [Account opts, Region opts, zoneId]\<rparr>))
             | None \<Rightarrow> zonesPageFunc Now opts svc zones (st\<lparr>ls_set := s', ls_clock := clock'\<rparr>)))"

definition ListAll :: "(int \<Rightarrow> 'm resources_Set_scheme) \<Rightarrow> (nat \<Rightarrow> Time) \<Rightarrow> Options \<Rightarrow> Route53
    \<Rightarrow> panic + 'm resources_Set_scheme \<times> error option" where
  "ListAll NewSet Now opts svc =
     (let s = NewSet 0
      in case ListHostedZonesPages svc (zonesPageFunc Now opts svc)
                \<lparr>ls_set = s, ls_rrsErr = None, ls_clock = 0\<rparr> of
           Inl x \<Rightarrow> Inl x
         | Inr (err, st) \<Rightarrow>
             (case ls_rrsErr st of
                Some rrsErr \<Rightarrow> Inr (ls_set st, Some rrsErr)
              | None \<Rightarrow>
                  Inr (ls_set st,
                       Wrapf err ''couldn't describe route53 instance profiles for %q in %q''
                         [Account opts, Region opts])))"

subsection \<open>Notions the statements use\<close>

text \<open>The managed record sets among \<open>records\<close>, each with its zone, in order.\<close>

definition managedObjects :: "HostedZone \<Rightarrow> ResourceRecordSet list \<Rightarrow> route53ResourceRecordSet list" where
  "managedObjects z records =
     map (\<lambda>rrs. \<lparr>r_zone = z, r_obj = rrs\<rparr>) (filter resourceRecordSetIsManaged records)"

text \<open>The tracker after \<^verbatim>\<open>set.Mark\<close> has been called on each of \<open>objs\<close>, in order.\<close>

fun markAll :: "'m MarkFn \<Rightarrow> route53ResourceRecordSet list \<Rightarrow> 'm resources_Set_scheme
    \<Rightarrow> 'm resources_Set_scheme" where
  "markAll Mark [] s = s"
| "markAll Mark (x # objs) s = markAll Mark objs (snd (Mark s x))"

text \<open>Those of \<open>objs\<close> for which that call of \<^verbatim>\<open>set.Mark\<close> answers true.\<close>

fun markedTrue :: "'m MarkFn \<Rightarrow> route53ResourceRecordSet list \<Rightarrow> 'm resources_Set_scheme
    \<Rightarrow> route53ResourceRecordSet list" where
  "markedTrue Mark [] s = []"
| "markedTrue Mark (x # objs) s =
     (if fst (Mark s x) then x # markedTrue Mark objs (snd (Mark s x))
      else markedTrue Mark objs (snd (Mark s x)))"

text \<open>The record sets the service delivers for a zone, over all pages.\<close>

definition zoneRecords :: "Route53 \<Rightarrow> HostedZone \<Rightarrow> ResourceRecordSet list" where
  "zoneRecords svc z = concat (fst (recordPages svc (hz_Id z)))"

text \<open>The error that ends the listing of a zone's record sets, if any.\<close>

definition zoneListError :: "Route53 \<Rightarrow> HostedZone \<Rightarrow> error option" where
  "zoneListError svc z = snd (recordPages svc (hz_Id z))"

text \<open>The managed record sets of the managed zones among \<open>zones\<close>, in order.\<close>

definition managedRecordsOf :: "Route53 \<Rightarrow> HostedZone list \<Rightarrow> route53ResourceRecordSet list" where
  "managedRecordsOf svc zones =
     concat (map (\<lambda>z. managedObjects z (zoneRecords svc z)) (filter zoneIsManaged zones))"

text \<open>
  The marking pass over a flat list of zones: the record sets delivered for each managed
  zone are marked, and the pass stops at the first zone whose listing ends in an error.
\<close>

fun sweepZones :: "'m MarkFn \<Rightarrow> Route53 \<Rightarrow> HostedZone list \<Rightarrow> 'm resources_Set_scheme
    \<Rightarrow> error option \<times> 'm resources_Set_scheme" where
  "sweepZones Mark svc [] s = (None, s)"
| "sweepZones Mark svc (z # zones) s =
     (if \<not> zoneIsManaged z then sweepZones Mark svc zones s
      else
        let s' = markAll Mark (managedObjects z (zoneRecords svc z)) s
        in case zoneListError svc z of
             Some e \<Rightarrow> (Some e, s')
           | None \<Rightarrow> sweepZones Mark svc zones s')"


text \<open>Two states of the sweep with the same tracker and the same \<^verbatim>\<open>listError\<close>.\<close>

definition sameMarking :: "'m sweepState \<Rightarrow> 'm sweepState \<Rightarrow> bool" where
  "sameMarking st st' \<longleftrightarrow> st_set st' = st_set st \<and> st_listError st' = st_listError st"

text \<open>
  The keys of the record sets the service delivers for the managed zones among \<open>zones\<close>,
  whatever their type and name.
\<close>

definition listedKeys :: "Route53 \<Rightarrow> HostedZone list \<Rightarrow> string list" where
  "listedKeys svc zones =
     concat (map (\<lambda>z. map (\<lambda>r. ARN \<lparr>r_zone = z, r_obj = r\<rparr>) (zoneRecords svc z))
                 (filter zoneIsManaged zones))"

text \<open>
  The pages of record sets the service delivers for the managed zones among \<open>zones\<close>, each
  with its zone, in the order \<open>ListAll\<close> receives them.
\<close>

definition managedPages :: "Route53 \<Rightarrow> HostedZone list \<Rightarrow> (HostedZone \<times> ResourceRecordSet list) list" where
  "managedPages svc zones =
     concat (map (\<lambda>z. map (Pair z) (fst (recordPages svc (hz_Id z)))) (filter zoneIsManaged zones))"

text \<open>The keys of the record sets of a page.\<close>

fun pageKeys :: "HostedZone \<times> ResourceRecordSet list \<Rightarrow> string list" where
  "pageKeys (z, recordSets) = map (\<lambda>r. ARN \<lparr>r_zone = z, r_obj = r\<rparr>) recordSets"

text \<open>
  The entries that pages give when the clock is read once for each page and had been read
  \<open>k\<close> times before: every key of a page with the reading taken for that page.
\<close>

fun stampPages :: "(nat \<Rightarrow> Time) \<Rightarrow> nat \<Rightarrow> (HostedZone \<times> ResourceRecordSet list) list
    \<Rightarrow> (string \<times> Time) list" where
  "stampPages Now k [] = []"
| "stampPages Now k (page # pages) =
     map (\<lambda>arn. (arn, Now k)) (pageKeys page) @ stampPages Now (Suc k) pages"

text \<open>
  The set after the entries have been written to \<^verbatim>\<open>firstSeen\<close> in order: a later entry for
  a key replaces an earlier one, and nothing else of the set changes.
\<close>

definition recorded :: "(string \<times> Time) list \<Rightarrow> 'm resources_Set_scheme \<Rightarrow> 'm resources_Set_scheme" where
  "recorded entries s = s\<lparr>firstSeen := firstSeen s ++ map_of (rev entries)\<rparr>"

text \<open>The state of \<open>ListAll\<close> after the pages have been recorded.\<close>

definition listed :: "(nat \<Rightarrow> Time) \<Rightarrow> (HostedZone \<times> ResourceRecordSet list) list \<Rightarrow> 'm listState
    \<Rightarrow> 'm listState" where
  "listed Now pages st =
     st\<lparr>ls_set := recorded (stampPages Now (ls_clock st) pages) (ls_set st),
        ls_clock := ls_clock st + length pages\<rparr>"

text \<open>The number of changes a call carries.\<close>

definition changeCount :: "call \<Rightarrow> nat" where
  "changeCount c = length (cb_Changes (in_ChangeBatch (fst c)))"

subsection \<open>Example inputs\<close>

text \<open>
  Three managed zones and one that is not, a managed record set and two that are not, a
  service that lists them, a tracker that is empty, a \<^verbatim>\<open>Mark\<close> that records the key and
  answers true, and a lister that returns \<open>n\<close> candidates for every zone.
\<close>

definition exZoneA :: HostedZone where
  "exZoneA = \<lparr>hz_Id = Some ''ZA'', hz_Name = Some ''test-cncf-aws.k8s.io.''\<rparr>"

definition exZoneB :: HostedZone where
  "exZoneB = \<lparr>hz_Id = Some ''ZB'', hz_Name = Some ''test-cncf-aws.k8s.io.''\<rparr>"

definition exZoneC :: HostedZone where
  "exZoneC = \<lparr>hz_Id = Some ''ZC'', hz_Name = Some ''test-cncf-aws.k8s.io.''\<rparr>"

definition exForeignZone :: HostedZone where
  "exForeignZone = \<lparr>hz_Id = Some ''ZX'', hz_Name = Some ''example.com.''\<rparr>"

definition exApi :: ResourceRecordSet where
  "exApi = \<lparr>rrs_Name = Some ''api.e2e-71149fffac-dba53.test-cncf-aws.k8s.io.'', rrs_Type = Some ''A''\<rparr>"

definition exWww :: ResourceRecordSet where
  "exWww = \<lparr>rrs_Name = Some ''www.test-cncf-aws.k8s.io.'', rrs_Type = Some ''A''\<rparr>"

definition exTxt :: ResourceRecordSet where
  "exTxt = \<lparr>rrs_Name = Some ''api.e2e-71149fffac-dba53.test-cncf-aws.k8s.io.'', rrs_Type = Some ''TXT''\<rparr>"

definition exService :: Route53 where
  "exService =
     \<lparr>zonePages = ([[exZoneA, exForeignZone], [exZoneB]], None),
      recordPages = (\<lambda>zoneId.
        if zoneId = Some ''ZA'' then ([[exApi], [exWww, exTxt]], None)
        else if zoneId = Some ''ZB'' then ([[exWww, exApi]], None)
        else if zoneId = Some ''ZX'' then ([[exApi]], None)
        else ([], Some (ServiceError ''NoSuchHostedZone''))),
      changeResult = (\<lambda>calls deleteReq. None)\<rparr>"

definition exSet :: resources_Set where
  "exSet = \<lparr>firstSeen = Map.empty\<rparr>"

definition exMark :: "unit MarkFn" where
  "exMark s x = (True, s\<lparr>firstSeen := (firstSeen s)(ResourceKey x \<mapsto> 0)\<rparr>)"

definition exOptions :: "bool \<Rightarrow> Options" where
  "exOptions dry = \<lparr>Account = ''123456789012'', Region = ''us-east-1'', DryRun = dry\<rparr>"

definition exLister :: "nat \<Rightarrow> unit lister" where
  "exLister n z s = Inr ((replicate n \<lparr>r_zone = z, r_obj = exApi\<rparr>, None), s)"

text \<open>
  A service on which the listing of the record sets of zone \<^verbatim>\<open>ZB\<close> fails after its first
  page, with a zone after \<^verbatim>\<open>ZB\<close> on the same page of zones.
\<close>

definition exFailing :: Route53 where
  "exFailing =
     \<lparr>zonePages = ([[exZoneA, exForeignZone], [exZoneB, exZoneC]], None),
      recordPages = (\<lambda>zoneId.
        if zoneId = Some ''ZA'' then ([[exApi], [exWww]], None)
        else if zoneId = Some ''ZB'' then ([[exWww, exApi]], Some (ServiceError ''Throttling''))
        else if zoneId = Some ''ZC'' then ([[exApi]], None)
        else ([], Some (ServiceError ''NoSuchHostedZone''))),
      changeResult = (\<lambda>calls deleteReq. None)\<rparr>"

text \<open>A service on which the listing of the zones fails after its first page.\<close>

definition exZonesFailing :: Route53 where
  "exZonesFailing =
     exService\<lparr>zonePages := ([[exZoneA, exForeignZone]], Some (ServiceError ''Throttling''))\<rparr>"

text \<open>
  For \<^verbatim>\<open>ListAll\<close>: a constructor that returns the empty tracker, a clock, and a service that
  holds a managed zone without an id, whose record sets cannot be listed.
\<close>

definition exNewSet :: "int \<Rightarrow> resources_Set" where
  "exNewSet ttl = exSet"

definition exNow :: "nat \<Rightarrow> Time" where
  "exNow k = 1000 + k"

definition exNoIdZone :: HostedZone where
  "exNoIdZone = \<lparr>hz_Id = None, hz_Name = Some ''test-cncf-aws.k8s.io.''\<rparr>"

definition exNoId :: Route53 where
  "exNoId =
     \<lparr>zonePages = ([[exZoneA, exNoIdZone]], None),
      recordPages = (\<lambda>zoneId.
        if zoneId = Some ''ZA'' then ([[exApi, exTxt]], None)
        else ([], Some (ServiceError ''InvalidParameter''))),
      changeResult = (\<lambda>calls deleteReq. None)\<rparr>"

section \<open>Properties\<close>

declare deleteChunks.simps [simp del]

subsection \<open>The matcher decides what the patterns mean\<close>

lemma somePrefixInI: "u \<in> L \<Longrightarrow> somePrefixIn L (u @ v)"
  unfolding somePrefixIn_def by blast

lemma somePrefixInE:
  assumes "somePrefixIn L s"
  obtains u v where "s = u @ v" "u \<in> L"
  using assms unfolding somePrefixIn_def by blast

lemma seqLangI: "u \<in> atomLang a \<Longrightarrow> v \<in> seqLang as \<Longrightarrow> u @ v \<in> seqLang (a # as)"
  by auto

lemma seqLangE:
  assumes "w \<in> seqLang (a # as)"
  obtains u v where "w = u @ v" "u \<in> atomLang a" "v \<in> seqLang as"
  using assms by auto

lemma empty_step: "somePrefixIn (seqLang []) s"
  using somePrefixInI [of "[]" "seqLang []" s] by simp

lemma lit_step:
  "somePrefixIn (seqLang (Lit c # as)) s \<longleftrightarrow>
   (\<exists>xs. s = c # xs \<and> somePrefixIn (seqLang as) xs)"
proof
  assume "somePrefixIn (seqLang (Lit c # as)) s"
  then obtain w v where s: "s = w @ v" and w: "w \<in> seqLang (Lit c # as)"
    by (rule somePrefixInE)
  from w obtain u u' where "w = u @ u'" "u \<in> atomLang (Lit c)" "u' \<in> seqLang as"
    by (rule seqLangE)
  then have "s = c # (u' @ v)" "somePrefixIn (seqLang as) (u' @ v)"
    using s by (simp_all add: somePrefixInI)
  then show "\<exists>xs. s = c # xs \<and> somePrefixIn (seqLang as) xs" by blast
next
  assume "\<exists>xs. s = c # xs \<and> somePrefixIn (seqLang as) xs"
  then obtain xs where s: "s = c # xs" and rest: "somePrefixIn (seqLang as) xs" by blast
  from rest obtain u v where xs: "xs = u @ v" and u: "u \<in> seqLang as"
    by (rule somePrefixInE)
  have "[c] @ u \<in> seqLang (Lit c # as)"
    using u by (intro seqLangI) simp_all
  then have "somePrefixIn (seqLang (Lit c # as)) (([c] @ u) @ v)"
    by (rule somePrefixInI)
  with s xs show "somePrefixIn (seqLang (Lit c # as)) s" by simp
qed

lemma class_step:
  "somePrefixIn (seqLang (Class rs lo hi # as)) s \<longleftrightarrow>
   (lo = 0 \<and> somePrefixIn (seqLang as) s) \<or>
   (0 < hi \<and> (\<exists>x xs. s = x # xs \<and> inClass rs x \<and>
       somePrefixIn (seqLang (Class rs (lo - 1) (hi - 1) # as)) xs))"
  (is "?L \<longleftrightarrow> ?A \<or> ?B")
proof
  assume ?L
  then obtain u v where s: "s = u @ v" and u: "u \<in> seqLang (Class rs lo hi # as)"
    by (rule somePrefixInE)
  from u obtain w u' where uw: "u = w @ u'" and wL: "w \<in> atomLang (Class rs lo hi)"
    and u': "u' \<in> seqLang as"
    by (rule seqLangE)
  from wL have w: "lo \<le> length w" "length w \<le> hi" "list_all (inClass rs) w"
    by simp_all
  show "?A \<or> ?B"
  proof (cases w)
    case Nil
    with w(1) have "lo = 0" by simp
    moreover from s uw Nil have "s = u' @ v" by simp
    then have "somePrefixIn (seqLang as) s" using u' by (simp add: somePrefixInI)
    ultimately show ?thesis by blast
  next
    case (Cons x w')
    with w have hi: "0 < hi" and x: "inClass rs x"
      and "lo - 1 \<le> length w'" "length w' \<le> hi - 1" "list_all (inClass rs) w'"
      by auto
    then have "w' \<in> atomLang (Class rs (lo - 1) (hi - 1))" by simp
    then have "w' @ u' \<in> seqLang (Class rs (lo - 1) (hi - 1) # as)"
      using u' by (rule seqLangI)
    then have "somePrefixIn (seqLang (Class rs (lo - 1) (hi - 1) # as)) ((w' @ u') @ v)"
      by (rule somePrefixInI)
    moreover from s uw Cons have "s = x # ((w' @ u') @ v)" by simp
    ultimately show ?thesis using hi x by blast
  qed
next
  assume "?A \<or> ?B"
  then show ?L
  proof
    assume ?A
    then have lo: "lo = 0" and "somePrefixIn (seqLang as) s" by simp_all
    from this(2) obtain u v where s: "s = u @ v" and u: "u \<in> seqLang as"
      by (rule somePrefixInE)
    have "[] \<in> atomLang (Class rs lo hi)" using lo by simp
    then have "[] @ u \<in> seqLang (Class rs lo hi # as)" using u by (rule seqLangI)
    then have "somePrefixIn (seqLang (Class rs lo hi # as)) (([] @ u) @ v)"
      by (rule somePrefixInI)
    with s show ?L by simp
  next
    assume ?B
    then obtain x xs where hi: "0 < hi" and s: "s = x # xs" and x: "inClass rs x"
      and rest: "somePrefixIn (seqLang (Class rs (lo - 1) (hi - 1) # as)) xs"
      by blast
    from rest obtain u v where xs: "xs = u @ v" and u: "u \<in> seqLang (Class rs (lo - 1) (hi - 1) # as)"
      by (rule somePrefixInE)
    from u obtain w' u' where uw: "u = w' @ u'" and w'L: "w' \<in> atomLang (Class rs (lo - 1) (hi - 1))"
      and u': "u' \<in> seqLang as"
      by (rule seqLangE)
    from w'L hi x have "x # w' \<in> atomLang (Class rs lo hi)"
      by auto
    then have "(x # w') @ u' \<in> seqLang (Class rs lo hi # as)" using u' by (rule seqLangI)
    then have "somePrefixIn (seqLang (Class rs lo hi # as)) (((x # w') @ u') @ v)"
      by (rule somePrefixInI)
    with s xs uw show ?L by simp
  qed
qed

theorem MatchPrefix_iff:
  "MatchPrefix as s \<longleftrightarrow> somePrefixIn (seqLang as) s"
proof (induction as s rule: MatchPrefix.induct)
  case (1 s)
  show ?case using empty_step by simp
next
  case (2 c as s)
  have "MatchPrefix (Lit c # as) s \<longleftrightarrow> (\<exists>xs. s = c # xs \<and> MatchPrefix as xs)"
    by (cases s) auto
  also have "\<dots> \<longleftrightarrow> (\<exists>xs. s = c # xs \<and> somePrefixIn (seqLang as) xs)"
    using 2 by blast
  also have "\<dots> \<longleftrightarrow> somePrefixIn (seqLang (Lit c # as)) s"
    by (rule lit_step [symmetric])
  finally show ?case .
next
  case (3 rs lo hi as s)
  have "MatchPrefix (Class rs lo hi # as) s \<longleftrightarrow>
      (lo = 0 \<and> MatchPrefix as s) \<or>
      (0 < hi \<and> (\<exists>x xs. s = x # xs \<and> inClass rs x \<and>
         MatchPrefix (Class rs (lo - 1) (hi - 1) # as) xs))"
    by (cases s) simp_all
  also have "\<dots> \<longleftrightarrow>
      (lo = 0 \<and> somePrefixIn (seqLang as) s) \<or>
      (0 < hi \<and> (\<exists>x xs. s = x # xs \<and> inClass rs x \<and>
         somePrefixIn (seqLang (Class rs (lo - 1) (hi - 1) # as)) xs))"
    using 3 by blast
  also have "\<dots> \<longleftrightarrow> somePrefixIn (seqLang (Class rs lo hi # as)) s"
    by (rule class_step [symmetric])
  finally show ?case .
qed

subsection \<open>The filters and the resource identity\<close>

text \<open>
  C6: for every zone \<open>z\<close>, \<open>zoneIsManaged z\<close> is true if and only if the name of \<open>z\<close> is
  exactly the one allow-listed domain \<^verbatim>\<open>test-cncf-aws.k8s.io.\<close>; a zone without a name is
  not managed.
\<close>

theorem zoneIsManaged_iff:
  "zoneIsManaged z \<longleftrightarrow> hz_Name z = Some ''test-cncf-aws.k8s.io.''"
  by (cases "hz_Name z") (auto simp: zoneIsManaged_def StringValue_def)

theorem zoneIsManaged_iff_witness:
  "zoneIsManaged \<lparr>hz_Id = Some ''Z1'', hz_Name = Some ''test-cncf-aws.k8s.io.''\<rparr> \<and>
   \<not> zoneIsManaged \<lparr>hz_Id = Some ''Z2'', hz_Name = Some ''test-cncf-aws.k8s.io''\<rparr> \<and>
   \<not> zoneIsManaged \<lparr>hz_Id = Some ''Z3'', hz_Name = Some ''x.test-cncf-aws.k8s.io.''\<rparr> \<and>
   \<not> zoneIsManaged \<lparr>hz_Id = Some ''Z4'', hz_Name = None\<rparr>"
  using zoneIsManaged_iff [of "\<lparr>hz_Id = Some ''Z1'', hz_Name = Some ''test-cncf-aws.k8s.io.''\<rparr>"]
    zoneIsManaged_iff [of "\<lparr>hz_Id = Some ''Z2'', hz_Name = Some ''test-cncf-aws.k8s.io''\<rparr>"]
    zoneIsManaged_iff [of "\<lparr>hz_Id = Some ''Z3'', hz_Name = Some ''x.test-cncf-aws.k8s.io.''\<rparr>"]
    zoneIsManaged_iff [of "\<lparr>hz_Id = Some ''Z4'', hz_Name = None\<rparr>"]
  by simp

text \<open>
  C7: a record set whose type is not \<^verbatim>\<open>A\<close> is never managed; and among the records of
  type \<^verbatim>\<open>A\<close>, the names \<^verbatim>\<open>api.e2e-71149fffac-dba53.test-cncf-aws.k8s.io.\<close> and
  \<^verbatim>\<open>etcd-b.internal.e2e-71149fffac-dba53.test-cncf-aws.k8s.io.\<close> are managed, the names
  \<^verbatim>\<open>api.unrelated.example.com.\<close> and \<^verbatim>\<open>www.test-cncf-aws.k8s.io.\<close> are not.
\<close>

theorem resourceRecordSetIsManaged_classifies:
  "(StringValue (rrs_Type r) \<noteq> ''A'' \<longrightarrow> \<not> resourceRecordSetIsManaged r) \<and>
   resourceRecordSetIsManaged
     \<lparr>rrs_Name = Some ''api.e2e-71149fffac-dba53.test-cncf-aws.k8s.io.'', rrs_Type = Some ''A''\<rparr> \<and>
   \<not> resourceRecordSetIsManaged
     \<lparr>rrs_Name = Some ''api.unrelated.example.com.'', rrs_Type = Some ''A''\<rparr> \<and>
   resourceRecordSetIsManaged
     \<lparr>rrs_Name = Some ''etcd-b.internal.e2e-71149fffac-dba53.test-cncf-aws.k8s.io.'',
      rrs_Type = Some ''A''\<rparr> \<and>
   \<not> resourceRecordSetIsManaged
     \<lparr>rrs_Name = Some ''www.test-cncf-aws.k8s.io.'', rrs_Type = Some ''A''\<rparr>"
proof -
  have 1: "StringValue (rrs_Type r) \<noteq> ''A'' \<longrightarrow> \<not> resourceRecordSetIsManaged r"
    by (auto simp: resourceRecordSetIsManaged_def)
  have 2: "resourceRecordSetIsManaged
     \<lparr>rrs_Name = Some ''api.e2e-71149fffac-dba53.test-cncf-aws.k8s.io.'', rrs_Type = Some ''A''\<rparr>"
    by code_simp
  have 3: "\<not> resourceRecordSetIsManaged
     \<lparr>rrs_Name = Some ''api.unrelated.example.com.'', rrs_Type = Some ''A''\<rparr>"
    by code_simp
  have 4: "resourceRecordSetIsManaged
     \<lparr>rrs_Name = Some ''etcd-b.internal.e2e-71149fffac-dba53.test-cncf-aws.k8s.io.'',
      rrs_Type = Some ''A''\<rparr>"
    by code_simp
  have 5: "\<not> resourceRecordSetIsManaged
     \<lparr>rrs_Name = Some ''www.test-cncf-aws.k8s.io.'', rrs_Type = Some ''A''\<rparr>"
    by code_simp
  from 1 2 3 4 5 show ?thesis by blast
qed

theorem resourceRecordSetIsManaged_classifies_witness:
  "StringValue (rrs_Type \<lparr>rrs_Name = Some ''api.e2e-71149fffac-dba53.test-cncf-aws.k8s.io.'',
      rrs_Type = Some ''CNAME''\<rparr>) \<noteq> ''A'' \<and>
   \<not> resourceRecordSetIsManaged
     \<lparr>rrs_Name = Some ''api.e2e-71149fffac-dba53.test-cncf-aws.k8s.io.'', rrs_Type = Some ''CNAME''\<rparr>"
proof -
  have h: "StringValue (rrs_Type \<lparr>rrs_Name = Some ''api.e2e-71149fffac-dba53.test-cncf-aws.k8s.io.'',
      rrs_Type = Some ''CNAME''\<rparr>) \<noteq> ''A''"
    by (simp add: StringValue_def)
  with resourceRecordSetIsManaged_classifies
    [of "\<lparr>rrs_Name = Some ''api.e2e-71149fffac-dba53.test-cncf-aws.k8s.io.'', rrs_Type = Some ''CNAME''\<rparr>"]
  show ?thesis by blast
qed

text \<open>
  C8: for every record set \<open>r\<close> of a zone \<open>z\<close>, the identity string that \<open>ARN\<close> and
  \<open>ResourceKey\<close> give is \<^verbatim>\<open>route53\<close>, \<^verbatim>\<open>::\<close>, the id of \<open>z\<close>, \<^verbatim>\<open>::\<close>, the type of \<open>r\<close>, \<^verbatim>\<open>::\<close> and the
  name of \<open>r\<close>, concatenated.
\<close>

theorem ARN_format:
  "ARN \<lparr>r_zone = z, r_obj = r\<rparr> =
     ''route53'' @ ''::'' @ StringValue (hz_Id z) @ ''::'' @ StringValue (rrs_Type r) @ ''::'' @
     StringValue (rrs_Name r) \<and>
   ResourceKey \<lparr>r_zone = z, r_obj = r\<rparr> = ARN \<lparr>r_zone = z, r_obj = r\<rparr>"
  by (simp add: ARN_def ResourceKey_def)

subsection \<open>The lister marks and collects nothing\<close>

lemma managed_empty_name: "\<not> anyRegexMatches managedNameRegexes []"
  by (simp add: managedNameRegexes_def MatchString_def lit_def e2eTail_def)

lemma resourceRecordSetIsManaged_Name:
  "resourceRecordSetIsManaged rrs \<Longrightarrow> \<exists>name. rrs_Name rrs = Some name"
  by (cases "rrs_Name rrs") (auto simp: resourceRecordSetIsManaged_def StringValue_def managed_empty_name split: if_splits)

lemma markAll_append: "markAll Mark (xs @ ys) s = markAll Mark ys (markAll Mark xs s)"
  by (induction xs arbitrary: s) auto

lemma managedObjects_append:
  "managedObjects z (xs @ ys) = managedObjects z xs @ managedObjects z ys"
  by (simp add: managedObjects_def)

lemma recordsPageFunc_eq:
  "recordsPageFunc Mark zone records (toDelete, s) =
     Inr (True, toDelete, markAll Mark (managedObjects zone records) s)"
proof (induction records arbitrary: s)
  case Nil
  show ?case by (simp add: managedObjects_def)
next
  case (Cons rrs records)
  show ?case
  proof (cases "resourceRecordSetIsManaged rrs")
    case False
    with Cons show ?thesis by (simp add: managedObjects_def)
  next
    case True
    then obtain name where "rrs_Name rrs = Some name"
      using resourceRecordSetIsManaged_Name by blast
    with True Cons show ?thesis
      by (simp add: managedObjects_def Let_def split: prod.splits)
  qed
qed

lemma Pages_recordsPageFunc:
  "Pages ps err (recordsPageFunc Mark zone) (toDelete, s) =
     Inr (err, toDelete, markAll Mark (managedObjects zone (concat ps)) s)"
proof (induction ps arbitrary: s)
  case Nil
  show ?case by (simp add: managedObjects_def)
next
  case (Cons p ps)
  then show ?case
    by (simp add: recordsPageFunc_eq managedObjects_append markAll_append)
qed

lemma route53ResourceRecordSetsForZone_eq:
  "route53ResourceRecordSetsForZone svc Mark zone s =
     Inr (([], zoneListError svc zone), markAll Mark (managedObjects zone (zoneRecords svc zone)) s)"
  by (simp add: route53ResourceRecordSetsForZone_def ListResourceRecordSetsPages_def
      Pages_recordsPageFunc zoneRecords_def zoneListError_def split: option.splits)

lemma deleteChunks_Nil: "deleteChunks svc z [] calls = calls"
  by (simp add: deleteChunks.simps)

lemma pageFunc_marking:
  assumes F: "\<And>z s. forZone z s =
      Inr (([], zoneListError svc z), markAll Mark (managedObjects z (zoneRecords svc z)) s)"
  shows "pageFunc forZone opts svc zones st =
     (case sweepZones Mark svc zones (st_set st) of
        (None, s') \<Rightarrow> Inr (True, st\<lparr>st_set := s'\<rparr>)
      | (Some e, s') \<Rightarrow> Inr (False, st\<lparr>st_set := s', st_listError := Some e\<rparr>))"
proof (induction zones arbitrary: st)
  case Nil
  show ?case by simp
next
  case (Cons z zones)
  have step: "forZone z (st_set st) =
      Inr (([], zoneListError svc z), markAll Mark (managedObjects z (zoneRecords svc z)) (st_set st))"
    by (rule F)
  show ?case
  proof (cases "zoneIsManaged z")
    case False
    with Cons show ?thesis by simp
  next
    case True
    show ?thesis
    proof (cases "zoneListError svc z")
      case (Some e)
      with True show ?thesis
        by (simp add: step)
    next
      case None
      with True show ?thesis
        by (simp add: step Cons.IH deleteChunks_Nil Let_def split: prod.splits option.splits)
    qed
  qed
qed

lemma sweepZones_append:
  "sweepZones Mark svc (xs @ ys) s =
     (case sweepZones Mark svc xs s of
        (None, s') \<Rightarrow> sweepZones Mark svc ys s'
      | (Some e, s') \<Rightarrow> (Some e, s'))"
  by (induction xs arbitrary: s) (auto simp: Let_def split: option.splits prod.splits)

lemma Pages_pageFunc_marking:
  assumes F: "\<And>z s. forZone z s =
      Inr (([], zoneListError svc z), markAll Mark (managedObjects z (zoneRecords svc z)) s)"
  shows "Pages ps err (pageFunc forZone opts svc) st =
     (case sweepZones Mark svc (concat ps) (st_set st) of
        (None, s') \<Rightarrow> Inr (err, st\<lparr>st_set := s'\<rparr>)
      | (Some e, s') \<Rightarrow> Inr (None, st\<lparr>st_set := s', st_listError := Some e\<rparr>))"
proof (induction ps arbitrary: st)
  case Nil
  show ?case by simp
next
  case (Cons p ps)
  have step: "pageFunc forZone opts svc p st =
     (case sweepZones Mark svc p (st_set st) of
        (None, s') \<Rightarrow> Inr (True, st\<lparr>st_set := s'\<rparr>)
      | (Some e, s') \<Rightarrow> Inr (False, st\<lparr>st_set := s', st_listError := Some e\<rparr>))"
    by (rule pageFunc_marking [OF F])
  show ?case
    by (simp add: step Cons.IH sweepZones_append split: prod.splits option.splits)
qed

lemma MarkAndSweep_eq:
  "MarkAndSweep Mark opts svc s =
     (case sweepZones Mark svc (concat (fst (zonePages svc))) s of
        (None, s') \<Rightarrow> Inr (snd (zonePages svc), s', [])
      | (Some e, s') \<Rightarrow> Inr (Some e, s', []))"
proof -
  let ?F = "route53ResourceRecordSetsForZone svc Mark"
  have "Pages (fst (zonePages svc)) (snd (zonePages svc)) (pageFunc ?F opts svc)
          \<lparr>st_set = s, st_listError = None, st_calls = []\<rparr> =
     (case sweepZones Mark svc (concat (fst (zonePages svc))) s of
        (None, s') \<Rightarrow> Inr (snd (zonePages svc), \<lparr>st_set = s', st_listError = None, st_calls = []\<rparr>)
      | (Some e, s') \<Rightarrow> Inr (None, \<lparr>st_set = s', st_listError = Some e, st_calls = []\<rparr>))"
    using Pages_pageFunc_marking [of ?F svc Mark "fst (zonePages svc)" "snd (zonePages svc)" opts
        "\<lparr>st_set = s, st_listError = None, st_calls = []\<rparr>"]
    by (simp add: route53ResourceRecordSetsForZone_eq split: prod.splits option.splits)
  then show ?thesis
    by (simp add: MarkAndSweep_def sweepWith_def ListHostedZonesPages_def
        split: prod.splits option.splits)
qed

subsection \<open>The chunk loop\<close>

lemma deleteChunks_big:
  assumes "1000 < length changes"
  shows "deleteChunks svc z changes calls =
     deleteChunks svc z (drop 1000 changes)
       (calls @ [(\<lparr>in_HostedZoneId = hz_Id z, in_ChangeBatch = \<lparr>cb_Changes = take 1000 changes\<rparr>\<rparr>,
                  changeResult svc calls
                    \<lparr>in_HostedZoneId = hz_Id z, in_ChangeBatch = \<lparr>cb_Changes = take 1000 changes\<rparr>\<rparr>)])"
proof -
  from assms have 1: "length changes \<noteq> 0" by auto
  have "deleteChunks svc z changes calls =
      (case ChangeResourceRecordSets svc
              \<lparr>in_HostedZoneId = hz_Id z, in_ChangeBatch = \<lparr>cb_Changes = take 1000 changes\<rparr>\<rparr> calls of
         (err, calls') \<Rightarrow> deleteChunks svc z (drop 1000 changes) calls')"
    by (subst deleteChunks.simps) (simp only: 1 assms if_True Let_def not_False_eq_True)
  then show ?thesis
    by (simp add: ChangeResourceRecordSets_def Let_def)
qed

lemma deleteChunks_small:
  assumes "changes \<noteq> []" and "length changes \<le> 1000"
  shows "deleteChunks svc z changes calls =
     calls @ [(\<lparr>in_HostedZoneId = hz_Id z, in_ChangeBatch = \<lparr>cb_Changes = changes\<rparr>\<rparr>,
               changeResult svc calls
                 \<lparr>in_HostedZoneId = hz_Id z, in_ChangeBatch = \<lparr>cb_Changes = changes\<rparr>\<rparr>)]"
proof -
  from assms have 1: "length changes \<noteq> 0" and 2: "\<not> 1000 < length changes" by auto
  have "deleteChunks svc z changes calls =
      (case ChangeResourceRecordSets svc
              \<lparr>in_HostedZoneId = hz_Id z, in_ChangeBatch = \<lparr>cb_Changes = changes\<rparr>\<rparr> calls of
         (err, calls') \<Rightarrow> deleteChunks svc z [] calls')"
    by (subst deleteChunks.simps) (simp only: 1 2 if_True if_False Let_def not_False_eq_True)
  then show ?thesis
    by (simp add: ChangeResourceRecordSets_def Let_def deleteChunks_Nil)
qed

lemma ceil_div_small: "0 < n \<Longrightarrow> n \<le> 1000 \<Longrightarrow> (n + 999) div 1000 = (1::nat)"
  by (simp add: div_eq_dividend_iff Euclidean_Rings.div_nat_eqI)

lemma ceil_div_big: "1000 \<le> n \<Longrightarrow> (n + 999) div 1000 = Suc ((n - 1000 + 999) div (1000::nat))"
proof -
  assume "1000 \<le> n"
  then have "n + 999 = (n - 1000 + 999) + 1000" by simp
  then have "(n + 999) div 1000 = ((n - 1000 + 999) + 1000) div 1000" by simp
  also have "\<dots> = Suc ((n - 1000 + 999) div 1000)" by (simp only: div_add_self2)
  finally show ?thesis .
qed

lemma deleteChunks_chunks:
  "\<exists>new. deleteChunks svc z changes calls = calls @ new \<and>
     length new = (length changes + 999) div 1000 \<and>
     (\<forall>c \<in> set new. 0 < changeCount c \<and> changeCount c \<le> 1000 \<and> in_HostedZoneId (fst c) = hz_Id z) \<and>
     concat (map (\<lambda>c. cb_Changes (in_ChangeBatch (fst c))) new) = changes"
proof (induction "length changes" arbitrary: changes calls rule: less_induct)
  case less
  consider "changes = []" | "changes \<noteq> []" "length changes \<le> 1000" | "1000 < length changes"
    by linarith
  then show ?case
  proof cases
    case 1
    then show ?thesis by (simp add: deleteChunks_Nil)
  next
    case 2
    then have "0 < length changes" by simp
    then have one: "(length changes + 999) div 1000 = 1" using 2(2) by (rule ceil_div_small)
    let ?c = "(\<lparr>in_HostedZoneId = hz_Id z, in_ChangeBatch = \<lparr>cb_Changes = changes\<rparr>\<rparr>,
               changeResult svc calls
                 \<lparr>in_HostedZoneId = hz_Id z, in_ChangeBatch = \<lparr>cb_Changes = changes\<rparr>\<rparr>)"
    have "deleteChunks svc z changes calls = calls @ [?c]"
      using 2 by (rule deleteChunks_small)
    moreover have "length [?c] = (length changes + 999) div 1000"
      using one by simp
    moreover have "\<forall>c \<in> set [?c]. 0 < changeCount c \<and> changeCount c \<le> 1000 \<and> in_HostedZoneId (fst c) = hz_Id z"
      using 2 by (simp add: changeCount_def)
    moreover have "concat (map (\<lambda>c. cb_Changes (in_ChangeBatch (fst c))) [?c]) = changes"
      by simp
    ultimately show ?thesis by blast
  next
    case 3
    let ?req = "\<lparr>in_HostedZoneId = hz_Id z, in_ChangeBatch = \<lparr>cb_Changes = take 1000 changes\<rparr>\<rparr>"
    let ?c = "(?req, changeResult svc calls ?req)"
    from 3 have "length (drop 1000 changes) < length changes" by simp
    from less [OF this, of "calls @ [?c]"]
    obtain new where new: "deleteChunks svc z (drop 1000 changes) (calls @ [?c]) = (calls @ [?c]) @ new"
      "length new = (length (drop 1000 changes) + 999) div 1000"
      "\<forall>c \<in> set new. 0 < changeCount c \<and> changeCount c \<le> 1000 \<and> in_HostedZoneId (fst c) = hz_Id z"
      "concat (map (\<lambda>c. cb_Changes (in_ChangeBatch (fst c))) new) = drop 1000 changes"
      by blast
    from 3 have "1000 \<le> length changes" by simp
    then have len: "(length changes + 999) div 1000 = Suc ((length (drop 1000 changes) + 999) div 1000)"
      by (simp only: length_drop ceil_div_big)
    have "deleteChunks svc z changes calls = calls @ (?c # new)"
      using new(1) by (simp only: deleteChunks_big [OF 3] append_assoc append_Cons append_Nil)
    moreover have "length (?c # new) = (length changes + 999) div 1000"
      using new(2) len by simp
    moreover have "\<forall>c \<in> set (?c # new). 0 < changeCount c \<and> changeCount c \<le> 1000 \<and> in_HostedZoneId (fst c) = hz_Id z"
      using new(3) 3 by (auto simp: changeCount_def)
    moreover have "concat (map (\<lambda>c. cb_Changes (in_ChangeBatch (fst c))) (?c # new)) = changes"
      using new(4) by simp
    ultimately show ?thesis by blast
  qed
qed


subsection \<open>A dry run issues no request\<close>

lemma lister_cases:
  fixes r :: "panic + (route53ResourceRecordSet list \<times> error option) \<times> 'm resources_Set_scheme"
  obtains (Panic) x where "r = Inl x"
  | (Failed) toDelete e s' where "r = Inr ((toDelete, Some e), s')"
  | (Listed) toDelete s' where "r = Inr ((toDelete, None), s')"
proof (cases r)
  case (Inl x)
  then show ?thesis by (rule Panic)
next
  case (Inr v)
  obtain toDelete err s' where v: "v = ((toDelete, err), s')"
    by (cases v) auto
  show ?thesis
  proof (cases err)
    case None
    with Inr v show ?thesis by (auto intro: Listed)
  next
    case (Some e)
    with Inr v show ?thesis by (auto intro: Failed)
  qed
qed

lemma pageFunc_dry_run:
  "DryRun opts \<Longrightarrow> pageFunc forZone opts svc zones st = Inr (c, st') \<Longrightarrow>
   st_calls st' = st_calls st"
proof (induction zones arbitrary: st)
  case Nil
  then show ?case by auto
next
  case (Cons z zones)
  show ?case
  proof (cases "zoneIsManaged z")
    case False
    with Cons.prems(2) have "pageFunc forZone opts svc zones st = Inr (c, st')"
      by simp
    from Cons.IH [OF Cons.prems(1) this] show ?thesis .
  next
    case True
    show ?thesis
    proof (cases "forZone z (st_set st)" rule: lister_cases)
      case (Panic x)
      with True Cons.prems(2) show ?thesis
        by simp
    next
      case (Failed toDelete e s')
      with True Cons.prems(2) show ?thesis
        by auto
    next
      case (Listed toDelete s')
      with True Cons.prems have "pageFunc forZone opts svc zones (st\<lparr>st_set := s'\<rparr>) = Inr (c, st')"
        by simp
      from Cons.IH [OF Cons.prems(1) this] show ?thesis by simp
    qed
  qed
qed

lemma Pages_Cons_cases:
  assumes "Pages (p # ps) err fn st = Inr (e, st')"
  obtains (Continue) st1 where "fn p st = Inr (True, st1)" "Pages ps err fn st1 = Inr (e, st')"
  | (Stop) "fn p st = Inr (False, st')" "e = None"
proof (cases "fn p st")
  case (Inl x)
  with assms show ?thesis by simp
next
  case (Inr v)
  obtain c st1 where v: "v = (c, st1)" by (cases v) auto
  show ?thesis
  proof (cases c)
    case True
    with Inr v assms show ?thesis by (auto intro: Continue)
  next
    case False
    with Inr v assms show ?thesis by (auto intro: Stop)
  qed
qed

lemma Pages_pageFunc_dry_run:
  "DryRun opts \<Longrightarrow> Pages ps err (pageFunc forZone opts svc) st = Inr (e, st') \<Longrightarrow>
   st_calls st' = st_calls st"
proof (induction ps arbitrary: st)
  case Nil
  then show ?case by auto
next
  case (Cons p ps)
  from Cons.prems(2) show ?case
  proof (cases rule: Pages_Cons_cases)
    case (Continue st1)
    from pageFunc_dry_run [OF Cons.prems(1) Continue(1)] Cons.IH [OF Cons.prems(1) Continue(2)]
    show ?thesis by simp
  next
    case Stop
    from pageFunc_dry_run [OF Cons.prems(1) Stop(1)] show ?thesis .
  qed
qed

lemma sweepWith_eq:
  "sweepWith forZone opts svc s =
     (case Pages (fst (zonePages svc)) (snd (zonePages svc)) (pageFunc forZone opts svc)
             \<lparr>st_set = s, st_listError = None, st_calls = []\<rparr> of
        Inl x \<Rightarrow> Inl x
      | Inr (e, st) \<Rightarrow>
          Inr (case st_listError st of Some listError \<Rightarrow> Some listError | None \<Rightarrow> e,
               st_set st, st_calls st))"
  by (simp add: sweepWith_def ListHostedZonesPages_def split: sum.splits option.splits prod.splits)

lemma sweepWith_cases:
  assumes "sweepWith forZone opts svc s = Inr (err, s', calls)"
  obtains e st where
    "Pages (fst (zonePages svc)) (snd (zonePages svc)) (pageFunc forZone opts svc)
       \<lparr>st_set = s, st_listError = None, st_calls = []\<rparr> = Inr (e, st)"
    "s' = st_set st" "calls = st_calls st"
    "err = (case st_listError st of Some listError \<Rightarrow> Some listError | None \<Rightarrow> e)"
proof (cases "Pages (fst (zonePages svc)) (snd (zonePages svc)) (pageFunc forZone opts svc)
       \<lparr>st_set = s, st_listError = None, st_calls = []\<rparr>")
  case (Inl x)
  with assms show ?thesis
    by (simp add: sweepWith_eq)
next
  case (Inr v)
  obtain e st where v: "v = (e, st)" by (cases v) auto
  from assms Inr v have "s' = st_set st \<and> calls = st_calls st \<and>
      err = (case st_listError st of Some listError \<Rightarrow> Some listError | None \<Rightarrow> e)"
    by (simp add: sweepWith_eq)
  with Inr v that show ?thesis by blast
qed

lemma sweepWith_dry_run:
  assumes "DryRun opts" and "sweepWith forZone opts svc s = Inr (err, s', calls)"
  shows "calls = []"
  using assms(2)
proof (cases rule: sweepWith_cases)
  case (1 e st)
  from Pages_pageFunc_dry_run [OF assms(1) 1(1)] 1(3) show ?thesis by simp
qed

subsection \<open>The answers to change requests change nothing else\<close>




subsection \<open>The flag of the dry run changes no marking; the marking pass\<close>

lemma pageFunc_same_marking:
  "sameMarking st st' \<Longrightarrow>
   rel_sum (=) (rel_prod (=) sameMarking)
     (pageFunc forZone opts svc zones st) (pageFunc forZone opts' svc' zones st')"
proof (induction zones arbitrary: st st')
  case Nil
  then show ?case by simp
next
  case (Cons z zones)
  from Cons.prems have set_eq: "st_set st' = st_set st"
    by (simp add: sameMarking_def)
  show ?case
  proof (cases "zoneIsManaged z")
    case False
    with Cons.IH [OF Cons.prems] show ?thesis by simp
  next
    case True
    show ?thesis
    proof (cases "forZone z (st_set st)" rule: lister_cases)
      case (Panic x)
      with True set_eq show ?thesis by simp
    next
      case (Failed toDelete e s')
      with True set_eq Cons.prems show ?thesis by (simp add: sameMarking_def)
    next
      case (Listed toDelete s')
      have "sameMarking (st\<lparr>st_set := s'\<rparr>) (st'\<lparr>st_set := s'\<rparr>)"
        "sameMarking (st\<lparr>st_set := s'\<rparr>) (st'\<lparr>st_set := s', st_calls := c'\<rparr>)"
        "sameMarking (st\<lparr>st_set := s', st_calls := c\<rparr>) (st'\<lparr>st_set := s'\<rparr>)"
        "sameMarking (st\<lparr>st_set := s', st_calls := c\<rparr>) (st'\<lparr>st_set := s', st_calls := c'\<rparr>)"
        for c c'
        using Cons.prems by (simp_all add: sameMarking_def)
      then show ?thesis
        using True Listed set_eq by (simp add: Let_def Cons.IH)
    qed
  qed
qed

lemma Pages_same_marking:
  "sameMarking st st' \<Longrightarrow>
   rel_sum (=) (rel_prod (=) sameMarking)
     (Pages ps err (pageFunc forZone opts svc) st) (Pages ps err (pageFunc forZone opts' svc') st')"
proof (induction ps arbitrary: st st')
  case Nil
  then show ?case by simp
next
  case (Cons p ps)
  have step: "rel_sum (=) (rel_prod (=) sameMarking)
     (pageFunc forZone opts svc p st) (pageFunc forZone opts' svc' p st')"
    using Cons.prems by (rule pageFunc_same_marking)
  show ?case
  proof (cases "pageFunc forZone opts svc p st")
    case (Inl x)
    with step have "pageFunc forZone opts' svc' p st' = Inl x"
      by (cases "pageFunc forZone opts' svc' p st'") simp_all
    with Inl show ?thesis by simp
  next
    case (Inr v)
    obtain c st1 where v: "v = (c, st1)" by (cases v) auto
    from step Inr v obtain st1' where
      r': "pageFunc forZone opts' svc' p st' = Inr (c, st1')" and sim: "sameMarking st1 st1'"
      by (cases "pageFunc forZone opts' svc' p st'") auto
    show ?thesis
    proof (cases c)
      case True
      with Inr v r' Cons.IH [OF sim] show ?thesis by simp
    next
      case False
      with Inr v r' sim show ?thesis by simp
    qed
  qed
qed

lemma sweepWith_same_marking:
  assumes "zonePages svc' = zonePages svc"
    and "sweepWith forZone opts svc s = Inr (err, s', calls)"
  shows "\<exists>calls'. sweepWith forZone opts' svc' s = Inr (err, s', calls')"
  using assms(2)
proof (cases rule: sweepWith_cases)
  case (1 e st)
  let ?st0 = "\<lparr>st_set = s, st_listError = None, st_calls = []\<rparr> :: 'a sweepState"
  have "sameMarking ?st0 ?st0"
    by (simp add: sameMarking_def)
  then have "rel_sum (=) (rel_prod (=) sameMarking)
     (Pages (fst (zonePages svc)) (snd (zonePages svc)) (pageFunc forZone opts svc) ?st0)
     (Pages (fst (zonePages svc)) (snd (zonePages svc)) (pageFunc forZone opts' svc') ?st0)"
    by (rule Pages_same_marking)
  with 1(1) obtain st' where
    P': "Pages (fst (zonePages svc)) (snd (zonePages svc)) (pageFunc forZone opts' svc') ?st0 = Inr (e, st')"
    and sim: "sameMarking st st'"
    by (cases "Pages (fst (zonePages svc)) (snd (zonePages svc)) (pageFunc forZone opts' svc') ?st0") auto
  from P' sim 1 assms(1) show ?thesis
    by (simp add: sweepWith_eq sameMarking_def)
qed

lemma managedRecordsOf_Nil: "managedRecordsOf svc [] = []"
  by (simp add: managedRecordsOf_def)

lemma managedRecordsOf_Cons:
  "managedRecordsOf svc (z # zones) =
     (if zoneIsManaged z then managedObjects z (zoneRecords svc z) @ managedRecordsOf svc zones
      else managedRecordsOf svc zones)"
  by (simp add: managedRecordsOf_def)

lemma managedRecordsOf_append:
  "managedRecordsOf svc (xs @ ys) = managedRecordsOf svc xs @ managedRecordsOf svc ys"
  by (simp add: managedRecordsOf_def)

lemma sweepZones_ok:
  "\<forall>z \<in> set zones. zoneIsManaged z \<longrightarrow> zoneListError svc z = None \<Longrightarrow>
   sweepZones Mark svc zones s = (None, markAll Mark (managedRecordsOf svc zones) s)"
  by (induction zones arbitrary: s)
     (simp_all add: managedRecordsOf_Nil managedRecordsOf_Cons markAll_append Let_def)

lemma sweepZones_fails_at:
  assumes "\<forall>z \<in> set before. zoneIsManaged z \<longrightarrow> zoneListError svc z = None"
    and "zoneIsManaged Z" and "zoneListError svc Z = Some e"
  shows "sweepZones Mark svc (before @ Z # after) s =
           (Some e, markAll Mark (managedRecordsOf svc (before @ [Z])) s)"
  using assms
  by (simp add: sweepZones_append sweepZones_ok managedRecordsOf_append managedRecordsOf_Cons
      managedRecordsOf_Nil markAll_append Let_def)

lemma sweepZones_None:
  "fst (sweepZones Mark svc zones s) = None \<Longrightarrow>
   snd (sweepZones Mark svc zones s) = markAll Mark (managedRecordsOf svc zones) s"
proof (induction zones arbitrary: s)
  case Nil
  show ?case by (simp add: managedRecordsOf_Nil)
next
  case (Cons z zones)
  show ?case
  proof (cases "zoneIsManaged z")
    case False
    with Cons show ?thesis by (simp add: managedRecordsOf_Cons)
  next
    case True
    show ?thesis
    proof (cases "zoneListError svc z")
      case None
      with True Cons show ?thesis
        by (simp add: managedRecordsOf_Cons markAll_append Let_def)
    next
      case (Some e)
      with True Cons.prems show ?thesis by (simp add: Let_def)
    qed
  qed
qed


subsection \<open>Facts about the example inputs\<close>

lemma ex_managed: "zoneIsManaged exZoneA" "zoneIsManaged exZoneB" "zoneIsManaged exZoneC"
  "\<not> zoneIsManaged exForeignZone"
  by (simp_all add: zoneIsManaged_def StringValue_def exZoneA_def exZoneB_def exZoneC_def exForeignZone_def)

lemma ex_records: "resourceRecordSetIsManaged exApi" "\<not> resourceRecordSetIsManaged exWww"
  "\<not> resourceRecordSetIsManaged exTxt"
  unfolding exApi_def exWww_def exTxt_def by code_simp+

lemma ex_zonePages: "zonePages exService = ([[exZoneA, exForeignZone], [exZoneB]], None)"
  by (simp add: exService_def)

lemma ex_recordPages:
  "recordPages exService (hz_Id exZoneA) = ([[exApi], [exWww, exTxt]], None)"
  "recordPages exService (hz_Id exZoneB) = ([[exWww, exApi]], None)"
  by (simp_all add: exService_def exZoneA_def exZoneB_def)

lemma ex_managedRecordsOf:
  "managedRecordsOf exService (concat (fst (zonePages exService))) =
     [\<lparr>r_zone = exZoneA, r_obj = exApi\<rparr>, \<lparr>r_zone = exZoneB, r_obj = exApi\<rparr>]"
  by (simp add: managedRecordsOf_def managedObjects_def zoneRecords_def ex_zonePages ex_recordPages
      ex_managed ex_records)



lemma exFailing_zonePages:
  "zonePages exFailing = ([[exZoneA, exForeignZone]] @ ([] @ exZoneB # [exZoneC]) # [], None)"
  by (simp add: exFailing_def)

lemma exFailing_listings:
  "zoneListError exFailing exZoneA = None"
  "zoneListError exFailing exZoneB = Some (ServiceError ''Throttling'')"
  "zoneRecords exFailing exZoneA = [exApi, exWww]"
  "zoneRecords exFailing exZoneB = [exWww, exApi]"
  by (simp_all add: zoneListError_def zoneRecords_def exFailing_def exZoneA_def exZoneB_def)

lemma ex_deleteChunks_2500:
  "deleteChunks svc z (replicate 2500 c) [] =
     (let req1 = \<lparr>in_HostedZoneId = hz_Id z, in_ChangeBatch = \<lparr>cb_Changes = replicate 1000 c\<rparr>\<rparr>;
          calls1 = [(req1, changeResult svc [] req1)];
          calls2 = calls1 @ [(req1, changeResult svc calls1 req1)];
          req3 = \<lparr>in_HostedZoneId = hz_Id z, in_ChangeBatch = \<lparr>cb_Changes = replicate 500 c\<rparr>\<rparr>
      in calls2 @ [(req3, changeResult svc calls2 req3)])"
proof -
  let ?req1 = "\<lparr>in_HostedZoneId = hz_Id z, in_ChangeBatch = \<lparr>cb_Changes = replicate 1000 c\<rparr>\<rparr>"
  let ?calls1 = "[(?req1, changeResult svc [] ?req1)]"
  let ?calls2 = "?calls1 @ [(?req1, changeResult svc ?calls1 ?req1)]"
  have "deleteChunks svc z (replicate 2500 c) [] = deleteChunks svc z (replicate 1500 c) ?calls1"
    by (subst deleteChunks_big) simp_all
  also have "\<dots> = deleteChunks svc z (replicate 500 c) ?calls2"
    by (subst deleteChunks_big) simp_all
  also have "\<dots> = ?calls2 @ [(\<lparr>in_HostedZoneId = hz_Id z, in_ChangeBatch = \<lparr>cb_Changes = replicate 500 c\<rparr>\<rparr>,
      changeResult svc ?calls2 \<lparr>in_HostedZoneId = hz_Id z, in_ChangeBatch = \<lparr>cb_Changes = replicate 500 c\<rparr>\<rparr>)]"
    by (subst deleteChunks_small) simp_all
  finally show ?thesis by (simp only: Let_def)
qed

section \<open>The sweep\<close>

lemma sum_changeCount:
  "sum_list (map changeCount new) = length (concat (map (\<lambda>c. cb_Changes (in_ChangeBatch (fst c))) new))"
  by (induction new) (simp_all add: changeCount_def)

lemma sweepZones_recordPages:
  "recordPages svc' = recordPages svc \<Longrightarrow>
   sweepZones Mark svc' zones s = sweepZones Mark svc zones s"
  by (induction zones arbitrary: s)
     (simp_all add: zoneRecords_def zoneListError_def Let_def split: option.splits)

lemma exFailing_managedRecordsOf:
  "managedRecordsOf exFailing [exZoneA, exForeignZone, exZoneB] =
     [\<lparr>r_zone = exZoneA, r_obj = exApi\<rparr>, \<lparr>r_zone = exZoneB, r_obj = exApi\<rparr>]"
  by (simp add: managedRecordsOf_def managedObjects_def exFailing_listings ex_managed ex_records)

text \<open>
  C2, as the code has it: when \<^verbatim>\<open>opts.DryRun\<close> is set, the sweep issues no change request,
  whatever candidates the per-zone lister returns, and it returns the error and leaves the
  tracker that the same sweep without the flag does. \<open>MarkAndSweep\<close> returns, with no request
  issued, and it has called \<^verbatim>\<open>set.Mark\<close>, in order, on the managed record sets delivered for
  the managed zones up to and including the first one whose record listing ends in an
  error: on every managed record set of every managed zone when no record listing fails,
  also when the listing of the zones itself ends in an error, and on nothing of the zones
  after a zone \<open>Z\<close> whose record listing fails.
\<close>

theorem MarkAndSweep_dry_run:
  assumes "DryRun opts"
  shows "(sweepWith forZone opts svc s = Inr (err, s', calls) \<longrightarrow>
            calls = [] \<and>
            (\<exists>calls'. sweepWith forZone (opts\<lparr>DryRun := False\<rparr>) svc s = Inr (err, s', calls'))) \<and>
         (\<exists>err s'. MarkAndSweep Mark opts svc s = Inr (err, s', []) \<and>
            (err = None \<longrightarrow>
               s' = markAll Mark (managedRecordsOf svc (concat (fst (zonePages svc)))) s)) \<and>
         ((\<forall>z \<in> set (concat (fst (zonePages svc))). zoneIsManaged z \<longrightarrow> zoneListError svc z = None) \<longrightarrow>
            MarkAndSweep Mark opts svc s =
              Inr (snd (zonePages svc),
                   markAll Mark (managedRecordsOf svc (concat (fst (zonePages svc)))) s, [])) \<and>
         (zonePages svc = (ps1 @ (zs1 @ Z # zs2) # ps2, zerr) \<and>
          (\<forall>z \<in> set (concat ps1 @ zs1). zoneIsManaged z \<longrightarrow> zoneListError svc z = None) \<and>
          zoneIsManaged Z \<and> zoneListError svc Z = Some e \<longrightarrow>
            MarkAndSweep Mark opts svc s =
              Inr (Some e, markAll Mark (managedRecordsOf svc (concat ps1 @ zs1 @ [Z])) s, []))"
proof (intro conjI impI)
  assume run: "sweepWith forZone opts svc s = Inr (err, s', calls)"
  from assms run show "calls = []" by (rule sweepWith_dry_run)
  from run show "\<exists>calls'. sweepWith forZone (opts\<lparr>DryRun := False\<rparr>) svc s = Inr (err, s', calls')"
    by (rule sweepWith_same_marking [OF refl])
next
  obtain e s1 where z: "sweepZones Mark svc (concat (fst (zonePages svc))) s = (e, s1)"
    by (cases "sweepZones Mark svc (concat (fst (zonePages svc))) s") auto
  show "\<exists>err s'. MarkAndSweep Mark opts svc s = Inr (err, s', []) \<and>
            (err = None \<longrightarrow>
               s' = markAll Mark (managedRecordsOf svc (concat (fst (zonePages svc)))) s)"
  proof (cases e)
    case None
    with z have "s1 = markAll Mark (managedRecordsOf svc (concat (fst (zonePages svc)))) s"
      using sweepZones_None [of Mark svc "concat (fst (zonePages svc))" s] by simp
    with None z show ?thesis by (simp add: MarkAndSweep_eq)
  next
    case (Some e')
    with z show ?thesis by (simp add: MarkAndSweep_eq)
  qed
next
  assume "\<forall>z \<in> set (concat (fst (zonePages svc))). zoneIsManaged z \<longrightarrow> zoneListError svc z = None"
  then have "sweepZones Mark svc (concat (fst (zonePages svc))) s =
      (None, markAll Mark (managedRecordsOf svc (concat (fst (zonePages svc)))) s)"
    by (rule sweepZones_ok)
  then show "MarkAndSweep Mark opts svc s =
      Inr (snd (zonePages svc),
           markAll Mark (managedRecordsOf svc (concat (fst (zonePages svc)))) s, [])"
    by (simp add: MarkAndSweep_eq)
next
  assume fails: "zonePages svc = (ps1 @ (zs1 @ Z # zs2) # ps2, zerr) \<and>
      (\<forall>z \<in> set (concat ps1 @ zs1). zoneIsManaged z \<longrightarrow> zoneListError svc z = None) \<and>
      zoneIsManaged Z \<and> zoneListError svc Z = Some e"
  then have flat: "concat (fst (zonePages svc)) = (concat ps1 @ zs1) @ Z # (zs2 @ concat ps2)"
    by simp
  from fails have "sweepZones Mark svc ((concat ps1 @ zs1) @ Z # (zs2 @ concat ps2)) s =
      (Some e, markAll Mark (managedRecordsOf svc ((concat ps1 @ zs1) @ [Z])) s)"
    by (intro sweepZones_fails_at) simp_all
  with flat show "MarkAndSweep Mark opts svc s =
      Inr (Some e, markAll Mark (managedRecordsOf svc (concat ps1 @ zs1 @ [Z])) s, [])"
    by (simp add: MarkAndSweep_eq)
qed

theorem MarkAndSweep_dry_run_witness:
  "DryRun (exOptions True) \<and>
   sweepWith (exLister 3) (exOptions True) exService exSet = Inr (None, exSet, []) \<and>
   (\<exists>calls'. sweepWith (exLister 3) ((exOptions True)\<lparr>DryRun := False\<rparr>) exService exSet =
      Inr (None, exSet, calls')) \<and>
   MarkAndSweep exMark (exOptions True) exService exSet =
     Inr (None,
          markAll exMark [\<lparr>r_zone = exZoneA, r_obj = exApi\<rparr>, \<lparr>r_zone = exZoneB, r_obj = exApi\<rparr>] exSet,
          []) \<and>
   MarkAndSweep exMark (exOptions True) exFailing exSet =
     Inr (Some (ServiceError ''Throttling''),
          markAll exMark [\<lparr>r_zone = exZoneA, r_obj = exApi\<rparr>, \<lparr>r_zone = exZoneB, r_obj = exApi\<rparr>] exSet,
          [])"
proof -
  have dry: "DryRun (exOptions True)"
    by (simp add: exOptions_def)
  have run: "sweepWith (exLister 3) (exOptions True) exService exSet = Inr (None, exSet, [])"
    by (simp add: sweepWith_eq ex_zonePages ex_managed exLister_def dry)
  have ok: "\<forall>z \<in> set (concat (fst (zonePages exService))).
      zoneIsManaged z \<longrightarrow> zoneListError exService z = None"
    by (simp add: ex_zonePages zoneListError_def ex_recordPages ex_managed)
  have failing: "zonePages exFailing = ([[exZoneA, exForeignZone]] @ ([] @ exZoneB # [exZoneC]) # [], None) \<and>
      (\<forall>z \<in> set (concat [[exZoneA, exForeignZone]] @ []).
         zoneIsManaged z \<longrightarrow> zoneListError exFailing z = None) \<and>
      zoneIsManaged exZoneB \<and> zoneListError exFailing exZoneB = Some (ServiceError ''Throttling'')"
    by (simp add: exFailing_zonePages exFailing_listings ex_managed)
  note service = MarkAndSweep_dry_run [OF dry, where forZone = "exLister 3" and svc = exService
      and s = exSet and err = None and s' = exSet and calls = "[]" and Mark = exMark]
  note failing_service = MarkAndSweep_dry_run [OF dry, where svc = exFailing and s = exSet
      and Mark = exMark and ?ps1.0 = "[[exZoneA, exForeignZone]]" and ?zs1.0 = "[]" and Z = exZoneB
      and ?zs2.0 = "[exZoneC]" and ?ps2.0 = "[]" and zerr = None and e = "ServiceError ''Throttling''"]
  from service [THEN conjunct1, THEN mp, OF run]
  have 1: "\<exists>calls'. sweepWith (exLister 3) ((exOptions True)\<lparr>DryRun := False\<rparr>) exService exSet =
      Inr (None, exSet, calls')"
    by (rule conjunct2)
  from service [THEN conjunct2, THEN conjunct2, THEN conjunct1, THEN mp, OF ok] ex_managedRecordsOf
  have 2: "MarkAndSweep exMark (exOptions True) exService exSet =
     Inr (None,
          markAll exMark [\<lparr>r_zone = exZoneA, r_obj = exApi\<rparr>, \<lparr>r_zone = exZoneB, r_obj = exApi\<rparr>] exSet,
          [])"
    by (simp add: ex_zonePages)
  from failing_service [THEN conjunct2, THEN conjunct2, THEN conjunct2, THEN mp, OF failing]
  have 3: "MarkAndSweep exMark (exOptions True) exFailing exSet =
     Inr (Some (ServiceError ''Throttling''),
          markAll exMark [\<lparr>r_zone = exZoneA, r_obj = exApi\<rparr>, \<lparr>r_zone = exZoneB, r_obj = exApi\<rparr>] exSet,
          [])"
    by (simp add: exFailing_managedRecordsOf)
  from dry run 1 2 3 show ?thesis by (intro conjI)
qed

text \<open>
  C2 as it is worded asks that \<^verbatim>\<open>set.Mark\<close> is called for every managed record set of every
  managed zone in every dry run. On a service whose listing of the record sets of zone
  \<^verbatim>\<open>ZB\<close> fails, the dry run returns that error and has not called \<^verbatim>\<open>set.Mark\<close> on the managed
  record set of the managed zone \<^verbatim>\<open>ZC\<close>, which the service delivers after \<^verbatim>\<open>ZB\<close>: the key that
  this \<^verbatim>\<open>Mark\<close> writes on every call is not in the tracker.
\<close>

theorem dry_run_leaves_zones_after_a_failure_unmarked:
  "DryRun (exOptions True) \<and>
   exZoneC \<in> set (concat (fst (zonePages exFailing))) \<and>
   zoneIsManaged exZoneC \<and>
   zoneRecords exFailing exZoneC = [exApi] \<and>
   resourceRecordSetIsManaged exApi \<and>
   (\<exists>s'. MarkAndSweep exMark (exOptions True) exFailing exSet =
            Inr (Some (ServiceError ''Throttling''), s', []) \<and>
          firstSeen s' (ResourceKey \<lparr>r_zone = exZoneC, r_obj = exApi\<rparr>) = None) \<and>
   firstSeen (snd (exMark exSet \<lparr>r_zone = exZoneC, r_obj = exApi\<rparr>))
     (ResourceKey \<lparr>r_zone = exZoneC, r_obj = exApi\<rparr>) = Some 0"
proof -
  have before: "\<forall>z \<in> set (concat [[exZoneA, exForeignZone]] @ []).
      zoneIsManaged z \<longrightarrow> zoneListError exFailing z = None"
    by (simp add: exFailing_listings ex_managed)
  have "sweepZones exMark exFailing (concat (fst (zonePages exFailing))) exSet =
      (Some (ServiceError ''Throttling''),
       markAll exMark [\<lparr>r_zone = exZoneA, r_obj = exApi\<rparr>, \<lparr>r_zone = exZoneB, r_obj = exApi\<rparr>] exSet)"
    using sweepZones_fails_at [OF before ex_managed(2) exFailing_listings(2), of exMark "[exZoneC]" exSet]
    by (simp add: exFailing_zonePages exFailing_managedRecordsOf)
  then have run: "MarkAndSweep exMark (exOptions True) exFailing exSet =
      Inr (Some (ServiceError ''Throttling''),
           markAll exMark [\<lparr>r_zone = exZoneA, r_obj = exApi\<rparr>, \<lparr>r_zone = exZoneB, r_obj = exApi\<rparr>] exSet,
           [])"
    by (simp add: MarkAndSweep_eq)
  have un: "firstSeen (markAll exMark [\<lparr>r_zone = exZoneA, r_obj = exApi\<rparr>, \<lparr>r_zone = exZoneB, r_obj = exApi\<rparr>] exSet)
      (ResourceKey \<lparr>r_zone = exZoneC, r_obj = exApi\<rparr>) = None"
    by (simp add: exMark_def exSet_def ResourceKey_def ARN_def StringValue_def
        exZoneA_def exZoneB_def exZoneC_def)
  have "zoneRecords exFailing exZoneC = [exApi]"
    by (simp add: zoneRecords_def exFailing_def exZoneC_def)
  with run un show ?thesis
    by (simp add: exOptions_def exFailing_zonePages ex_managed ex_records exMark_def)
qed



text \<open>
  C4: when the listing of the record sets of a managed zone \<open>Z\<close> ends in an error, and no
  managed zone before \<open>Z\<close> has failed so, \<open>MarkAndSweep\<close> returns that error, has marked the
  managed record sets delivered for the managed zones up to and including \<open>Z\<close> and nothing
  else, has issued no request, and has done what it does when the listing of the zones ends
  with \<open>Z\<close>: the zones after \<open>Z\<close> on the same page, the later pages and the error of the zone
  listing have no part in the run.
\<close>

theorem listing_failure_stops_the_sweep:
  assumes "zonePages svc = (ps1 @ (zs1 @ Z # zs2) # ps2, zerr)"
    and "\<forall>z \<in> set (concat ps1 @ zs1). zoneIsManaged z \<longrightarrow> zoneListError svc z = None"
    and "zoneIsManaged Z"
    and "zoneListError svc Z = Some e"
  shows "MarkAndSweep Mark opts svc s =
           Inr (Some e, markAll Mark (managedRecordsOf svc (concat ps1 @ zs1 @ [Z])) s, []) \<and>
         MarkAndSweep Mark opts (svc\<lparr>zonePages := (ps1 @ [zs1 @ [Z]], None)\<rparr>) s =
           MarkAndSweep Mark opts svc s"
proof -
  let ?before = "concat ps1 @ zs1"
  have flat: "concat (fst (zonePages svc)) = ?before @ Z # (zs2 @ concat ps2)"
    by (simp add: assms(1))
  have 1: "sweepZones Mark svc (concat (fst (zonePages svc))) s =
      (Some e, markAll Mark (managedRecordsOf svc (?before @ [Z])) s)"
    unfolding flat using assms(2-4) by (rule sweepZones_fails_at)
  have 2: "sweepZones Mark svc (?before @ Z # []) s =
      (Some e, markAll Mark (managedRecordsOf svc (?before @ [Z])) s)"
    using assms(2-4) by (rule sweepZones_fails_at)
  let ?svc' = "svc\<lparr>zonePages := (ps1 @ [zs1 @ [Z]], None)\<rparr>"
  have "sweepZones Mark ?svc' (concat (fst (zonePages ?svc'))) s =
      sweepZones Mark svc (?before @ Z # []) s"
    by (simp add: sweepZones_recordPages [of ?svc' svc])
  with 1 2 show ?thesis
    by (simp add: MarkAndSweep_eq)
qed

theorem listing_failure_stops_the_sweep_witness:
  "MarkAndSweep exMark (exOptions False) exFailing exSet =
     Inr (Some (ServiceError ''Throttling''),
          markAll exMark [\<lparr>r_zone = exZoneA, r_obj = exApi\<rparr>, \<lparr>r_zone = exZoneB, r_obj = exApi\<rparr>] exSet,
          []) \<and>
   MarkAndSweep exMark (exOptions False)
     (exFailing\<lparr>zonePages := ([[exZoneA, exForeignZone], [exZoneB]], None)\<rparr>) exSet =
     MarkAndSweep exMark (exOptions False) exFailing exSet"
proof -
  have before: "\<forall>z \<in> set (concat [[exZoneA, exForeignZone]] @ []).
      zoneIsManaged z \<longrightarrow> zoneListError exFailing z = None"
    by (simp add: exFailing_listings ex_managed)
  have "managedRecordsOf exFailing (concat [[exZoneA, exForeignZone]] @ [] @ [exZoneB]) =
      [\<lparr>r_zone = exZoneA, r_obj = exApi\<rparr>, \<lparr>r_zone = exZoneB, r_obj = exApi\<rparr>]"
    by (simp add: managedRecordsOf_def managedObjects_def exFailing_listings ex_managed ex_records)
  with listing_failure_stops_the_sweep
    [OF exFailing_zonePages before ex_managed(2) exFailing_listings(2), of exMark "exOptions False" exSet]
  show ?thesis by simp
qed

text \<open>
  The step of the sweep on a managed zone: when the sweep is not a dry run and the lister
  returns \<open>N\<close> candidates for the zone, the sweep issues for that zone, after the requests
  it has issued before, exactly \<open>\<lceil>N / 1000\<rceil>\<close> change requests; each is addressed to the zone
  and carries at least one and at most 1000 changes; together they carry the \<open>N\<close> delete
  changes of the candidates, each once and in order.
\<close>

lemma requests_in_chunks_of_1000:
  assumes "\<not> DryRun opts"
    and "zoneIsManaged z"
    and "forZone z (st_set st) = Inr ((toDelete, None), s')"
  shows "\<exists>st' new.
           pageFunc forZone opts svc [z] st = Inr (True, st') \<and>
           st_calls st' = st_calls st @ new \<and>
           length new = (length toDelete + 999) div 1000 \<and>
           (\<forall>c \<in> set new. 0 < changeCount c \<and> changeCount c \<le> 1000 \<and>
                            in_HostedZoneId (fst c) = hz_Id z) \<and>
           sum_list (map changeCount new) = length toDelete \<and>
           concat (map (\<lambda>c. cb_Changes (in_ChangeBatch (fst c))) new) = map deleteChange toDelete"
proof -
  let ?changes = "map deleteChange toDelete"
  obtain new where new: "deleteChunks svc z ?changes (st_calls st) = st_calls st @ new"
    "length new = (length ?changes + 999) div 1000"
    "\<forall>c \<in> set new. 0 < changeCount c \<and> changeCount c \<le> 1000 \<and> in_HostedZoneId (fst c) = hz_Id z"
    "concat (map (\<lambda>c. cb_Changes (in_ChangeBatch (fst c))) new) = ?changes"
    using deleteChunks_chunks [of svc z ?changes "st_calls st"] by blast
  let ?st' = "st\<lparr>st_set := s', st_calls := st_calls st @ new\<rparr>"
  have "pageFunc forZone opts svc [z] st = Inr (True, ?st')"
    using assms new(1) by (simp add: Let_def)
  moreover have "st_calls ?st' = st_calls st @ new"
    by simp
  moreover have "length new = (length toDelete + 999) div 1000"
    using new(2) by simp
  moreover have "sum_list (map changeCount new) = length toDelete"
    using new(4) by (simp add: sum_changeCount)
  ultimately show ?thesis
    using new(3) new(4) by blast
qed

lemma requests_in_chunks_of_1000_example:
  "\<not> DryRun (exOptions False) \<and> zoneIsManaged exZoneA \<and>
   (\<exists>st' new.
      pageFunc (exLister 2500) (exOptions False) exService [exZoneA]
        \<lparr>st_set = exSet, st_listError = None, st_calls = []\<rparr> = Inr (True, st') \<and>
      st_calls st' = new \<and>
      length new = 3 \<and>
      map changeCount new = [1000, 1000, 500] \<and>
      sum_list (map changeCount new) = 2500)"
proof -
  let ?st = "\<lparr>st_set = exSet, st_listError = None, st_calls = []\<rparr> :: unit sweepState"
  have wet: "\<not> DryRun (exOptions False)"
    by (simp add: exOptions_def)
  have lister: "exLister 2500 exZoneA (st_set ?st) =
      Inr ((replicate 2500 \<lparr>r_zone = exZoneA, r_obj = exApi\<rparr>, None), exSet)"
    by (simp add: exLister_def)
  from requests_in_chunks_of_1000
    [where opts = "exOptions False" and z = exZoneA and forZone = "exLister 2500" and st = ?st
       and svc = exService, OF wet ex_managed(1) lister]
  obtain st' new where run: "pageFunc (exLister 2500) (exOptions False) exService [exZoneA] ?st = Inr (True, st')"
    and calls: "st_calls st' = st_calls ?st @ new"
    and count: "length new = (length (replicate 2500 \<lparr>r_zone = exZoneA, r_obj = exApi\<rparr>) + 999) div 1000"
    and total: "sum_list (map changeCount new) = length (replicate 2500 \<lparr>r_zone = exZoneA, r_obj = exApi\<rparr>)"
    by blast
  have "pageFunc (exLister 2500) (exOptions False) exService [exZoneA] ?st =
      Inr (True, ?st\<lparr>st_set := exSet, st_calls := deleteChunks exService exZoneA
        (replicate 2500 (deleteChange \<lparr>r_zone = exZoneA, r_obj = exApi\<rparr>)) []\<rparr>)"
    using wet by (simp add: ex_managed exLister_def Let_def)
  with run calls have "new = deleteChunks exService exZoneA
        (replicate 2500 (deleteChange \<lparr>r_zone = exZoneA, r_obj = exApi\<rparr>)) []"
    by simp
  then have sizes: "map changeCount new = [1000, 1000, 500]"
    by (simp add: ex_deleteChunks_2500 Let_def changeCount_def)
  from count have three: "length new = 3" by simp
  from total have all: "sum_list (map changeCount new) = 2500" by simp
  from calls have "st_calls st' = new" by simp
  with run three sizes all have "\<exists>st' new.
      pageFunc (exLister 2500) (exOptions False) exService [exZoneA] ?st = Inr (True, st') \<and>
      st_calls st' = new \<and> length new = 3 \<and> map changeCount new = [1000, 1000, 500] \<and>
      sum_list (map changeCount new) = 2500"
    by - (rule exI [of _ st'], rule exI [of _ new], (rule conjI, assumption)+, assumption)
  with wet ex_managed(1) show ?thesis by blast
qed

lemma ex_zoneRecords:
  "zoneRecords exService exZoneA = [exApi, exWww, exTxt]"
  "zoneListError exService exZoneA = None"
  by (simp_all add: zoneRecords_def zoneListError_def ex_recordPages)

lemma ex_names:
  "rrs_Name exApi = Some ''api.e2e-71149fffac-dba53.test-cncf-aws.k8s.io.''"
  by (simp add: exApi_def)

lemma ex_sweepZones_all:
  "sweepZones exMark exService (concat (fst (zonePages exService))) exSet =
     (None, markAll exMark [\<lparr>r_zone = exZoneA, r_obj = exApi\<rparr>, \<lparr>r_zone = exZoneB, r_obj = exApi\<rparr>] exSet)"
proof -
  have "\<forall>z \<in> set (concat (fst (zonePages exService))).
      zoneIsManaged z \<longrightarrow> zoneListError exService z = None"
    by (simp add: ex_zonePages ex_managed zoneListError_def ex_recordPages)
  then have "sweepZones exMark exService (concat (fst (zonePages exService))) exSet =
      (None, markAll exMark (managedRecordsOf exService (concat (fst (zonePages exService)))) exSet)"
    by (rule sweepZones_ok)
  then show ?thesis by (simp only: ex_managedRecordsOf)
qed

text \<open>
  C1: the claim is that the list \<open>route53ResourceRecordSetsForZone\<close> returns holds the managed
  record sets for which \<^verbatim>\<open>set.Mark\<close> answered true. On the example service, with a \<^verbatim>\<open>Mark\<close>
  that answers true, the function marks the managed record set of zone \<^verbatim>\<open>ZA\<close> and returns
  the empty list.
\<close>

theorem lister_returns_no_candidate:
  "markedTrue exMark (managedObjects exZoneA (zoneRecords exService exZoneA)) exSet =
     [\<lparr>r_zone = exZoneA, r_obj = exApi\<rparr>] \<and>
   route53ResourceRecordSetsForZone exService exMark exZoneA exSet =
     Inr (([], None), markAll exMark [\<lparr>r_zone = exZoneA, r_obj = exApi\<rparr>] exSet)"
proof (intro conjI)
  show "markedTrue exMark (managedObjects exZoneA (zoneRecords exService exZoneA)) exSet =
     [\<lparr>r_zone = exZoneA, r_obj = exApi\<rparr>]"
    by (simp add: managedObjects_def ex_zoneRecords ex_records) (simp add: exMark_def)
  show "route53ResourceRecordSetsForZone exService exMark exZoneA exSet =
     Inr (([], None), markAll exMark [\<lparr>r_zone = exZoneA, r_obj = exApi\<rparr>] exSet)"
    by (simp add: route53ResourceRecordSetsForZone_def ListResourceRecordSetsPages_def
        ex_recordPages ex_records ex_names Let_def exMark_def)
qed

text \<open>
  C5: the claim is that for a zone with \<open>N\<close> record sets eligible for deletion a sweep that
  is not a dry run issues \<open>\<lceil>N / 1000\<rceil>\<close> change requests, which carry \<open>N\<close> changes together.
  On the example service the zones \<^verbatim>\<open>ZA\<close> and \<^verbatim>\<open>ZB\<close> have one managed record set each for
  which \<^verbatim>\<open>Mark\<close> answers true; \<open>MarkAndSweep\<close> marks both and issues no request.
\<close>

theorem sweep_issues_no_request_for_candidates:
  "\<not> DryRun (exOptions False) \<and>
   markedTrue exMark (managedObjects exZoneA (zoneRecords exService exZoneA)) exSet =
     [\<lparr>r_zone = exZoneA, r_obj = exApi\<rparr>] \<and>
   MarkAndSweep exMark (exOptions False) exService exSet =
     Inr (None,
          markAll exMark [\<lparr>r_zone = exZoneA, r_obj = exApi\<rparr>, \<lparr>r_zone = exZoneB, r_obj = exApi\<rparr>] exSet,
          [])"
proof (intro conjI)
  show "\<not> DryRun (exOptions False)"
    by (simp add: exOptions_def)
  show "markedTrue exMark (managedObjects exZoneA (zoneRecords exService exZoneA)) exSet =
     [\<lparr>r_zone = exZoneA, r_obj = exApi\<rparr>]"
    by (simp add: managedObjects_def ex_zoneRecords ex_records) (simp add: exMark_def)
  show "MarkAndSweep exMark (exOptions False) exService exSet =
     Inr (None,
          markAll exMark [\<lparr>r_zone = exZoneA, r_obj = exApi\<rparr>, \<lparr>r_zone = exZoneB, r_obj = exApi\<rparr>] exSet,
          [])"
    by (simp add: MarkAndSweep_eq ex_sweepZones_all) (simp add: ex_zonePages)
qed

section \<open>The inventory\<close>

lemma recorded_Nil: "recorded [] s = s"
  by (simp add: recorded_def)

lemma recorded_append: "recorded (xs @ ys) s = recorded ys (recorded xs s)"
  by (simp add: recorded_def)

lemma recorded_Cons:
  "recorded ((k, v) # xs) s = recorded xs (s\<lparr>firstSeen := (firstSeen s)(k \<mapsto> v)\<rparr>)"
  using recorded_append [of "[(k, v)]" xs s] by (simp add: recorded_def)

lemma recordFirstSeen_eq:
  "recordFirstSeen z now recordSets s =
     recorded (map (\<lambda>arn. (arn, now)) (pageKeys (z, recordSets))) s"
  by (induction recordSets arbitrary: s) (simp_all add: recorded_Nil recorded_Cons Let_def)

lemma stampPages_append:
  "stampPages Now k (xs @ ys) = stampPages Now k xs @ stampPages Now (k + length xs) ys"
  by (induction xs arbitrary: k) simp_all

lemma managedPages_Nil: "managedPages svc [] = []"
  by (simp add: managedPages_def)

lemma managedPages_Cons:
  "managedPages svc (z # zones) =
     (if zoneIsManaged z
      then map (Pair z) (fst (recordPages svc (hz_Id z))) @ managedPages svc zones
      else managedPages svc zones)"
  by (simp add: managedPages_def)

lemma managedPages_append:
  "managedPages svc (xs @ ys) = managedPages svc xs @ managedPages svc ys"
  by (simp add: managedPages_def)

lemma recordSetsPageFunc_eq:
  "recordSetsPageFunc Now z recordSets (s, clock) =
     Inr (True, recordFirstSeen z (Now clock) recordSets s, Suc clock)"
  by (simp add: recordSetsPageFunc_def)

lemma Pages_recordSetsPageFunc:
  "Pages ps err (recordSetsPageFunc Now z) (s, clock) =
     Inr (err, recorded (stampPages Now clock (map (Pair z) ps)) s, clock + length ps)"
proof (induction ps arbitrary: s clock)
  case Nil
  show ?case by (simp add: recorded_Nil)
next
  case (Cons p ps)
  show ?case
    by (simp add: recordSetsPageFunc_eq Cons recordFirstSeen_eq recorded_append del: pageKeys.simps)
qed

lemma listRecords:
  "ListResourceRecordSetsPages svc (hz_Id z) (recordSetsPageFunc Now z) (s, clock) =
     Inr (zoneListError svc z,
          recorded (stampPages Now clock (map (Pair z) (fst (recordPages svc (hz_Id z))))) s,
          clock + length (fst (recordPages svc (hz_Id z))))"
  by (simp add: ListResourceRecordSetsPages_def zoneListError_def Pages_recordSetsPageFunc)

lemma listed_Nil: "listed Now [] st = st"
  by (simp add: listed_def recorded_Nil)

lemma listed_append: "listed Now (xs @ ys) st = listed Now ys (listed Now xs st)"
  by (simp add: listed_def stampPages_append recorded_append)

lemma zonesPageFunc_ok:
  assumes "\<forall>z \<in> set zones. zoneIsManaged z \<longrightarrow> zoneListError svc z = None"
  shows "zonesPageFunc Now opts svc zones st = Inr (True, listed Now (managedPages svc zones) st)"
  using assms
proof (induction zones arbitrary: st)
  case Nil
  show ?case by (simp add: managedPages_Nil listed_Nil)
next
  case (Cons z zones)
  from Cons.prems have rest: "\<forall>z \<in> set zones. zoneIsManaged z \<longrightarrow> zoneListError svc z = None"
    by simp
  show ?case
  proof (cases "zoneIsManaged z")
    case False
    with Cons.IH [OF rest, of st] show ?thesis by (simp add: managedPages_Cons)
  next
    case True
    with Cons.prems have ok: "zoneListError svc z = None" by simp
    let ?st1 = "listed Now (map (Pair z) (fst (recordPages svc (hz_Id z)))) st"
    have "zonesPageFunc Now opts svc (z # zones) st = zonesPageFunc Now opts svc zones ?st1"
      using True ok by (simp add: listRecords listed_def)
    also have "\<dots> = Inr (True, listed Now (managedPages svc zones) ?st1)"
      by (rule Cons.IH [OF rest])
    finally show ?thesis
      using True by (simp add: managedPages_Cons listed_append)
  qed
qed

lemma zonesPageFunc_fails_at:
  assumes "\<forall>z \<in> set before. zoneIsManaged z \<longrightarrow> zoneListError svc z = None"
    and "zoneIsManaged Z" and "zoneListError svc Z = Some e"
  shows "zonesPageFunc Now opts svc (before @ Z # after) st =
           (case hz_Id Z of
              None \<Rightarrow> Inl NilDereference
            | Some zoneId \<Rightarrow>
                Inr (False, (listed Now (managedPages svc (before @ [Z])) st)
                       \<lparr>ls_rrsErr := Some (Wrapped e
                          ''couldn't describe route53 resources for %q in %q zone %q''
                          [Account opts, Region opts, zoneId])\<rparr>))"
  using assms(1)
proof (induction before arbitrary: st)
  case Nil
  from assms(2,3) show ?case
    by (simp add: listRecords listed_def Wrapf_def managedPages_Cons managedPages_Nil
        split: option.splits)
next
  case (Cons z before)
  from Cons.prems have rest: "\<forall>z \<in> set before. zoneIsManaged z \<longrightarrow> zoneListError svc z = None"
    by simp
  show ?case
  proof (cases "zoneIsManaged z")
    case False
    with Cons.IH [OF rest, of st] show ?thesis
      by (simp add: managedPages_Cons split: option.splits)
  next
    case True
    with Cons.prems have ok: "zoneListError svc z = None" by simp
    let ?st1 = "listed Now (map (Pair z) (fst (recordPages svc (hz_Id z)))) st"
    have "zonesPageFunc Now opts svc ((z # before) @ Z # after) st =
        zonesPageFunc Now opts svc (before @ Z # after) ?st1"
      using True ok by (simp add: listRecords listed_def)
    with Cons.IH [OF rest, of ?st1] True show ?thesis
      by (simp add: managedPages_Cons listed_append split: option.splits)
  qed
qed

lemma Pages_zonesPageFunc_ok:
  assumes "\<forall>z \<in> set (concat ps). zoneIsManaged z \<longrightarrow> zoneListError svc z = None"
  shows "Pages ps err (zonesPageFunc Now opts svc) st =
           Inr (err, listed Now (managedPages svc (concat ps)) st)"
  using assms
proof (induction ps arbitrary: st)
  case Nil
  show ?case by (simp add: managedPages_Nil listed_Nil)
next
  case (Cons p ps)
  from Cons.prems have here: "\<forall>z \<in> set p. zoneIsManaged z \<longrightarrow> zoneListError svc z = None"
    and rest: "\<forall>z \<in> set (concat ps). zoneIsManaged z \<longrightarrow> zoneListError svc z = None"
    by simp_all
  have 1: "zonesPageFunc Now opts svc p st = Inr (True, listed Now (managedPages svc p) st)"
    using here by (rule zonesPageFunc_ok)
  have 2: "Pages ps err (zonesPageFunc Now opts svc) (listed Now (managedPages svc p) st) =
      Inr (err, listed Now (managedPages svc (concat ps)) (listed Now (managedPages svc p) st))"
    using rest by (rule Cons.IH)
  from 1 2 show ?case
    by (simp add: managedPages_append listed_append)
qed

lemma Pages_zonesPageFunc_fails_at:
  assumes "\<forall>z \<in> set (concat ps1 @ zs1). zoneIsManaged z \<longrightarrow> zoneListError svc z = None"
    and "zoneIsManaged Z" and "zoneListError svc Z = Some e"
  shows "Pages (ps1 @ (zs1 @ Z # zs2) # ps2) err (zonesPageFunc Now opts svc) st =
           (case hz_Id Z of
              None \<Rightarrow> Inl NilDereference
            | Some zoneId \<Rightarrow>
                Inr (None, (listed Now (managedPages svc (concat ps1 @ zs1 @ [Z])) st)
                       \<lparr>ls_rrsErr := Some (Wrapped e
                          ''couldn't describe route53 resources for %q in %q zone %q''
                          [Account opts, Region opts, zoneId])\<rparr>))"
  using assms(1)
proof (induction ps1 arbitrary: st)
  case Nil
  then have "\<forall>z \<in> set zs1. zoneIsManaged z \<longrightarrow> zoneListError svc z = None"
    by simp
  from zonesPageFunc_fails_at [OF this assms(2,3), of Now opts zs2 st] show ?case
    by (simp split: option.splits)
next
  case (Cons p ps1)
  from Cons.prems have here: "\<forall>z \<in> set p. zoneIsManaged z \<longrightarrow> zoneListError svc z = None"
    and rest: "\<forall>z \<in> set (concat ps1 @ zs1). zoneIsManaged z \<longrightarrow> zoneListError svc z = None"
    by simp_all
  have 1: "zonesPageFunc Now opts svc p st = Inr (True, listed Now (managedPages svc p) st)"
    using here by (rule zonesPageFunc_ok)
  from Cons.IH [OF rest, of "listed Now (managedPages svc p) st"] 1 show ?case
    by (simp add: managedPages_append listed_append split: option.splits)
qed

lemma ListAll_ok:
  assumes "\<forall>z \<in> set (concat (fst (zonePages svc))). zoneIsManaged z \<longrightarrow> zoneListError svc z = None"
  shows "ListAll NewSet Now opts svc =
           Inr (recorded (stampPages Now 0 (managedPages svc (concat (fst (zonePages svc))))) (NewSet 0),
                Wrapf (snd (zonePages svc))
                  ''couldn't describe route53 instance profiles for %q in %q''
                  [Account opts, Region opts])"
  using Pages_zonesPageFunc_ok [OF assms, of "snd (zonePages svc)" Now opts
      "\<lparr>ls_set = NewSet 0, ls_rrsErr = None, ls_clock = 0\<rparr>"]
  by (simp add: ListAll_def ListHostedZonesPages_def Let_def listed_def)

lemma ListAll_fails_at:
  assumes "zonePages svc = (ps1 @ (zs1 @ Z # zs2) # ps2, zerr)"
    and "\<forall>z \<in> set (concat ps1 @ zs1). zoneIsManaged z \<longrightarrow> zoneListError svc z = None"
    and "zoneIsManaged Z" and "zoneListError svc Z = Some e"
  shows "ListAll NewSet Now opts svc =
           (case hz_Id Z of
              None \<Rightarrow> Inl NilDereference
            | Some zoneId \<Rightarrow>
                Inr (recorded (stampPages Now 0 (managedPages svc (concat ps1 @ zs1 @ [Z]))) (NewSet 0),
                     Some (Wrapped e ''couldn't describe route53 resources for %q in %q zone %q''
                             [Account opts, Region opts, zoneId])))"
  using Pages_zonesPageFunc_fails_at [OF assms(2-4), of zs2 ps2 zerr Now opts
      "\<lparr>ls_set = NewSet 0, ls_rrsErr = None, ls_clock = 0\<rparr>"]
  by (simp add: ListAll_def ListHostedZonesPages_def assms(1) Let_def listed_def
      split: option.splits)

lemma first_failure:
  assumes "\<not> (\<forall>z \<in> set (concat ps). P z)"
  obtains ps1 zs1 Z zs2 ps2 where "ps = ps1 @ (zs1 @ Z # zs2) # ps2"
    and "\<forall>z \<in> set (concat ps1 @ zs1). P z" and "\<not> P Z"
proof -
  from assms have "\<exists>p \<in> set ps. \<exists>z \<in> set p. \<not> P z" by auto
  then obtain ps1 p ps2 where ps: "ps = ps1 @ p # ps2" and p: "\<exists>z \<in> set p. \<not> P z"
    and ps1: "\<forall>q \<in> set ps1. \<not> (\<exists>z \<in> set q. \<not> P z)"
    by (auto dest!: split_list_first_prop)
  from p obtain zs1 Z zs2 where "p = zs1 @ Z # zs2" "\<not> P Z" "\<forall>z \<in> set zs1. \<not> \<not> P z"
    by (auto dest!: split_list_first_prop)
  with ps ps1 have "ps = ps1 @ (zs1 @ Z # zs2) # ps2" "\<forall>z \<in> set (concat ps1 @ zs1). P z" "\<not> P Z"
    by auto
  then show thesis by (rule that)
qed


lemma stampPages_keys: "map fst (stampPages Now k pages) = concat (map pageKeys pages)"
  by (induction pages arbitrary: k) (simp_all add: comp_def del: pageKeys.simps)

lemma listedKeys_Nil: "listedKeys svc [] = []"
  by (simp add: listedKeys_def)

lemma listedKeys_Cons:
  "listedKeys svc (z # zones) =
     (if zoneIsManaged z
      then map (\<lambda>r. ARN \<lparr>r_zone = z, r_obj = r\<rparr>) (zoneRecords svc z) @ listedKeys svc zones
      else listedKeys svc zones)"
  by (simp add: listedKeys_def)

lemma listedKeys_pages: "listedKeys svc zones = concat (map pageKeys (managedPages svc zones))"
  by (induction zones)
     (simp_all add: listedKeys_Nil listedKeys_Cons managedPages_Nil managedPages_Cons
        zoneRecords_def map_concat comp_def)

lemma recorded_dom:
  "dom (firstSeen (recorded entries s)) = dom (firstSeen s) \<union> set (map fst entries)"
  by (auto simp: recorded_def dom_map_of_conv_image_fst)

lemma recorded_other:
  "k \<notin> set (map fst entries) \<Longrightarrow> firstSeen (recorded entries s) k = firstSeen s k"
  by (simp add: recorded_def map_add_def map_of_eq_None_iff [THEN iffD2] split: option.splits)

lemma recorded_found:
  "map_of (rev entries) k = Some t \<Longrightarrow> firstSeen (recorded entries s) k = Some t"
  by (simp add: recorded_def map_add_def)

lemma stamp_page_lookup:
  assumes "a \<in> set ks"
  shows "map_of (rev (map (\<lambda>arn. (arn, t)) ks)) a = Some t"
proof -
  from assms have "a \<in> fst ` set (rev (map (\<lambda>arn. (arn, t)) ks))"
    by (simp add: image_image)
  then obtain y where "map_of (rev (map (\<lambda>arn. (arn, t)) ks)) a = Some y"
    by (cases "map_of (rev (map (\<lambda>arn. (arn, t)) ks)) a") (auto simp: map_of_eq_None_iff)
  moreover from this have "(a, y) \<in> set (rev (map (\<lambda>arn. (arn, t)) ks))"
    by (rule map_of_SomeD)
  then have "y = t" by auto
  ultimately show ?thesis by simp
qed

lemma stamp_lookup:
  assumes "a \<in> set (concat (map pageKeys pages))"
  shows "\<exists>i<length pages. a \<in> set (pageKeys (pages ! i)) \<and>
           (\<forall>j. i < j \<and> j < length pages \<longrightarrow> a \<notin> set (pageKeys (pages ! j))) \<and>
           map_of (rev (stampPages Now c pages)) a = Some (Now (c + i))"
  using assms
proof (induction pages arbitrary: c)
  case Nil
  then show ?case by simp
next
  case (Cons p ps)
  have lookup: "map_of (rev (stampPages Now c (p # ps))) a =
      (map_of (rev (map (\<lambda>arn. (arn, Now c)) (pageKeys p))) ++
       map_of (rev (stampPages Now (Suc c) ps))) a"
    by simp
  show ?case
  proof (cases "a \<in> set (concat (map pageKeys ps))")
    case True
    from Cons.IH [OF True, of "Suc c"] obtain i where i: "i < length ps"
      "a \<in> set (pageKeys (ps ! i))"
      "\<forall>j. i < j \<and> j < length ps \<longrightarrow> a \<notin> set (pageKeys (ps ! j))"
      "map_of (rev (stampPages Now (Suc c) ps)) a = Some (Now (Suc c + i))"
      by blast
    have later: "\<forall>j. Suc i < j \<and> j < length (p # ps) \<longrightarrow> a \<notin> set (pageKeys ((p # ps) ! j))"
    proof (intro allI impI)
      fix j assume j: "Suc i < j \<and> j < length (p # ps)"
      then obtain j' where "j = Suc j'" by (cases j) auto
      with j i(3) show "a \<notin> set (pageKeys ((p # ps) ! j))" by simp
    qed
    from i(4) have "map_of (rev (stampPages Now c (p # ps))) a = Some (Now (c + Suc i))"
      unfolding lookup by (simp add: map_add_def)
    with i(1,2) later show ?thesis
      by (intro exI [of _ "Suc i"]) simp
  next
    case False
    with Cons.prems have here: "a \<in> set (pageKeys p)" by simp
    have later: "\<forall>j. 0 < j \<and> j < length (p # ps) \<longrightarrow> a \<notin> set (pageKeys ((p # ps) ! j))"
    proof (intro allI impI)
      fix j assume j: "0 < j \<and> j < length (p # ps)"
      then obtain j' where j': "j = Suc j'" "j' < length ps" by (cases j) auto
      then have "ps ! j' \<in> set ps" by simp
      with False have "a \<notin> set (pageKeys (ps ! j'))" by auto
      with j' show "a \<notin> set (pageKeys ((p # ps) ! j))" by simp
    qed
    from False have "a \<notin> fst ` set (rev (stampPages Now (Suc c) ps))"
      using stampPages_keys [of Now "Suc c" ps] by (metis set_map set_rev)
    then have "map_of (rev (stampPages Now (Suc c) ps)) a = None"
      by (simp add: map_of_eq_None_iff)
    with stamp_page_lookup [OF here, of "Now c"]
    have "map_of (rev (stampPages Now c (p # ps))) a = Some (Now (c + 0))"
      unfolding lookup by (simp add: map_add_def)
    with here later show ?thesis
      by (intro exI [of _ 0]) simp
  qed
qed

text \<open>
  C9: when \<open>ListAll\<close> returns no error, the keys of the set it returns are the keys the new
  set had and the key of every record set delivered for a managed zone, whatever its type
  and name, and no other key: nothing of a zone that is not managed is recorded. The set
  is the new set with, for every page of record sets of a managed zone, the keys of the
  page written with the reading of the clock taken for that page, \<open>Now i\<close> for page number
  \<open>i\<close>, in order. So the value of every such key is the reading taken for the last page
  that delivered it, and every other key has the value it had in the new set.
\<close>

theorem ListAll_records_every_record_set:
  fixes svc :: Route53
  defines "zones \<equiv> concat (fst (zonePages svc))"
  defines "pages \<equiv> managedPages svc zones"
  assumes "ListAll NewSet Now opts svc = Inr (s', None)"
  shows "dom (firstSeen s') = dom (firstSeen (NewSet 0)) \<union> set (listedKeys svc zones) \<and>
         s' = recorded (stampPages Now 0 pages) (NewSet 0) \<and>
         (\<forall>k \<in> set (listedKeys svc zones).
            \<exists>i<length pages. k \<in> set (pageKeys (pages ! i)) \<and>
              (\<forall>j. i < j \<and> j < length pages \<longrightarrow> k \<notin> set (pageKeys (pages ! j))) \<and>
              firstSeen s' k = Some (Now i)) \<and>
         (\<forall>k. k \<notin> set (listedKeys svc zones) \<longrightarrow> firstSeen s' k = firstSeen (NewSet 0) k)"
proof -
  let ?P = "\<lambda>z. zoneIsManaged z \<longrightarrow> zoneListError svc z = None"
  have ok: "\<forall>z \<in> set (concat (fst (zonePages svc))). ?P z"
  proof (rule ccontr)
    assume "\<not> (\<forall>z \<in> set (concat (fst (zonePages svc))). ?P z)"
    then obtain ps1 zs1 Z zs2 ps2 where ps: "fst (zonePages svc) = ps1 @ (zs1 @ Z # zs2) # ps2"
      and before: "\<forall>z \<in> set (concat ps1 @ zs1). ?P z" and Z: "\<not> ?P Z"
      by (rule first_failure)
    from Z obtain e where Z': "zoneIsManaged Z" "zoneListError svc Z = Some e" by auto
    from ps have "zonePages svc = (ps1 @ (zs1 @ Z # zs2) # ps2, snd (zonePages svc))"
      by (simp add: prod_eq_iff)
    from ListAll_fails_at [OF this before Z', of NewSet Now opts] assms(3) show False
      by (simp split: option.splits)
  qed
  from ListAll_ok [OF ok, of NewSet Now opts] assms(3)
  have s': "s' = recorded (stampPages Now 0 pages) (NewSet 0)"
    by (simp add: zones_def pages_def)
  have keys: "set (map fst (stampPages Now 0 pages)) = set (listedKeys svc zones)"
    by (simp only: stampPages_keys listedKeys_pages pages_def)
  have 1: "dom (firstSeen s') = dom (firstSeen (NewSet 0)) \<union> set (listedKeys svc zones)"
    unfolding s' recorded_dom keys ..
  have 3: "\<forall>k \<in> set (listedKeys svc zones).
      \<exists>i<length pages. k \<in> set (pageKeys (pages ! i)) \<and>
        (\<forall>j. i < j \<and> j < length pages \<longrightarrow> k \<notin> set (pageKeys (pages ! j))) \<and>
        firstSeen s' k = Some (Now i)"
  proof
    fix k assume "k \<in> set (listedKeys svc zones)"
    then have "k \<in> set (concat (map pageKeys pages))"
      by (simp only: listedKeys_pages pages_def)
    from stamp_lookup [OF this, of Now 0] obtain i where i: "i < length pages"
      "k \<in> set (pageKeys (pages ! i))"
      "\<forall>j. i < j \<and> j < length pages \<longrightarrow> k \<notin> set (pageKeys (pages ! j))"
      "map_of (rev (stampPages Now 0 pages)) k = Some (Now (0 + i))"
      by blast
    from i(4) have "firstSeen s' k = Some (Now i)"
      unfolding s' by (simp add: recorded_found)
    with i(1-3) show "\<exists>i<length pages. k \<in> set (pageKeys (pages ! i)) \<and>
        (\<forall>j. i < j \<and> j < length pages \<longrightarrow> k \<notin> set (pageKeys (pages ! j))) \<and>
        firstSeen s' k = Some (Now i)"
      by blast
  qed
  have 4: "\<forall>k. k \<notin> set (listedKeys svc zones) \<longrightarrow> firstSeen s' k = firstSeen (NewSet 0) k"
    unfolding s' keys [symmetric] by (simp add: recorded_other)
  from 1 s' 3 4 show ?thesis by (intro conjI)
qed



lemma ex_ListAll_returns:
  "\<exists>s'. ListAll exNewSet exNow (exOptions False) exService = Inr (s', None)"
  by (simp add: ListAll_def ListHostedZonesPages_def ListResourceRecordSetsPages_def Let_def
      ex_zonePages ex_recordPages ex_managed recordSetsPageFunc_eq Wrapf_def)

lemma ex_listedKeys:
  "listedKeys exService (concat (fst (zonePages exService))) =
     [''route53::ZA::A::api.e2e-71149fffac-dba53.test-cncf-aws.k8s.io.'',
      ''route53::ZA::A::www.test-cncf-aws.k8s.io.'',
      ''route53::ZA::TXT::api.e2e-71149fffac-dba53.test-cncf-aws.k8s.io.'',
      ''route53::ZB::A::www.test-cncf-aws.k8s.io.'',
      ''route53::ZB::A::api.e2e-71149fffac-dba53.test-cncf-aws.k8s.io.'']"
  by (simp add: listedKeys_def ex_zonePages ex_managed zoneRecords_def ex_recordPages)
     (simp add: ARN_def StringValue_def exZoneA_def exZoneB_def exApi_def exWww_def exTxt_def)

lemma ex_stamps:
  "stampPages exNow 0 (managedPages exService (concat (fst (zonePages exService)))) =
     [(''route53::ZA::A::api.e2e-71149fffac-dba53.test-cncf-aws.k8s.io.'', 1000),
      (''route53::ZA::A::www.test-cncf-aws.k8s.io.'', 1001),
      (''route53::ZA::TXT::api.e2e-71149fffac-dba53.test-cncf-aws.k8s.io.'', 1001),
      (''route53::ZB::A::www.test-cncf-aws.k8s.io.'', 1002),
      (''route53::ZB::A::api.e2e-71149fffac-dba53.test-cncf-aws.k8s.io.'', 1002)]"
  by (simp add: managedPages_def ex_zonePages ex_managed ex_recordPages exNow_def)
     (simp add: ARN_def StringValue_def exZoneA_def exZoneB_def exApi_def exWww_def exTxt_def)

theorem ListAll_records_every_record_set_witness:
  "\<exists>s'. ListAll exNewSet exNow (exOptions False) exService = Inr (s', None) \<and>
     dom (firstSeen s') =
       {''route53::ZA::A::api.e2e-71149fffac-dba53.test-cncf-aws.k8s.io.'',
        ''route53::ZA::A::www.test-cncf-aws.k8s.io.'',
        ''route53::ZA::TXT::api.e2e-71149fffac-dba53.test-cncf-aws.k8s.io.'',
        ''route53::ZB::A::www.test-cncf-aws.k8s.io.'',
        ''route53::ZB::A::api.e2e-71149fffac-dba53.test-cncf-aws.k8s.io.''} \<and>
     firstSeen s' (ARN \<lparr>r_zone = exForeignZone, r_obj = exApi\<rparr>) = None \<and>
     firstSeen s' ''route53::ZA::A::api.e2e-71149fffac-dba53.test-cncf-aws.k8s.io.'' = Some (exNow 0) \<and>
     firstSeen s' ''route53::ZA::A::www.test-cncf-aws.k8s.io.'' = Some (exNow 1) \<and>
     firstSeen s' ''route53::ZA::TXT::api.e2e-71149fffac-dba53.test-cncf-aws.k8s.io.'' = Some (exNow 1) \<and>
     firstSeen s' ''route53::ZB::A::www.test-cncf-aws.k8s.io.'' = Some (exNow 2) \<and>
     firstSeen s' ''route53::ZB::A::api.e2e-71149fffac-dba53.test-cncf-aws.k8s.io.'' = Some (exNow 2) \<and>
     exNow 0 = 1000 \<and> exNow 1 = 1001 \<and> exNow 2 = 1002"
proof -
  obtain s' where run: "ListAll exNewSet exNow (exOptions False) exService = Inr (s', None)"
    using ex_ListAll_returns by blast
  note all = ListAll_records_every_record_set [OF run]
  from all [THEN conjunct1]
  have keys: "dom (firstSeen s') =
       {''route53::ZA::A::api.e2e-71149fffac-dba53.test-cncf-aws.k8s.io.'',
        ''route53::ZA::A::www.test-cncf-aws.k8s.io.'',
        ''route53::ZA::TXT::api.e2e-71149fffac-dba53.test-cncf-aws.k8s.io.'',
        ''route53::ZB::A::www.test-cncf-aws.k8s.io.'',
        ''route53::ZB::A::api.e2e-71149fffac-dba53.test-cncf-aws.k8s.io.''}"
    by (simp add: ex_listedKeys exNewSet_def exSet_def)
  have "ARN \<lparr>r_zone = exForeignZone, r_obj = exApi\<rparr> \<notin> dom (firstSeen s')"
    unfolding keys by (simp add: ARN_def StringValue_def exForeignZone_def exApi_def)
  then have foreign: "firstSeen s' (ARN \<lparr>r_zone = exForeignZone, r_obj = exApi\<rparr>) = None"
    by (simp add: domIff)
  from all [THEN conjunct2, THEN conjunct1]
  have s': "firstSeen s' =
      firstSeen (recorded
        [(''route53::ZA::A::api.e2e-71149fffac-dba53.test-cncf-aws.k8s.io.'', 1000),
         (''route53::ZA::A::www.test-cncf-aws.k8s.io.'', 1001),
         (''route53::ZA::TXT::api.e2e-71149fffac-dba53.test-cncf-aws.k8s.io.'', 1001),
         (''route53::ZB::A::www.test-cncf-aws.k8s.io.'', 1002),
         (''route53::ZB::A::api.e2e-71149fffac-dba53.test-cncf-aws.k8s.io.'', 1002)] exSet)"
    by (simp only: ex_stamps exNewSet_def)
  have "firstSeen s' ''route53::ZA::A::api.e2e-71149fffac-dba53.test-cncf-aws.k8s.io.'' = Some (exNow 0)"
    "firstSeen s' ''route53::ZA::A::www.test-cncf-aws.k8s.io.'' = Some (exNow 1)"
    "firstSeen s' ''route53::ZA::TXT::api.e2e-71149fffac-dba53.test-cncf-aws.k8s.io.'' = Some (exNow 1)"
    "firstSeen s' ''route53::ZB::A::www.test-cncf-aws.k8s.io.'' = Some (exNow 2)"
    "firstSeen s' ''route53::ZB::A::api.e2e-71149fffac-dba53.test-cncf-aws.k8s.io.'' = Some (exNow 2)"
    "exNow 0 = 1000" "exNow 1 = 1001" "exNow 2 = 1002"
    unfolding s' by (simp_all add: recorded_def exNow_def exSet_def)
  with run keys foreign show ?thesis by blast
qed

text \<open>
  C10: Route53 sends the id of every hosted zone it lists. When every managed zone
  delivered has its id, \<open>ListAll\<close> returns the set in every run. When no listing of record
  sets fails, the set holds the entries of all pages of all managed zones delivered,
  alongside the wrapped error of the zone listing, if there is one. When the listing of
  the record sets of a managed zone \<open>Z\<close> is the first to fail, the set holds the entries of
  all pages delivered up to the failure, those of \<open>Z\<close> included, alongside the wrapped
  error.
\<close>

theorem ListAll_returns_the_set_with_the_error:
  assumes "\<forall>z \<in> set (concat (fst (zonePages svc))). zoneIsManaged z \<longrightarrow> hz_Id z \<noteq> None"
  shows "(\<exists>s' err. ListAll NewSet Now opts svc = Inr (s', err)) \<and>
         ((\<forall>z \<in> set (concat (fst (zonePages svc))). zoneIsManaged z \<longrightarrow> zoneListError svc z = None) \<longrightarrow>
            ListAll NewSet Now opts svc =
              Inr (recorded (stampPages Now 0 (managedPages svc (concat (fst (zonePages svc)))))
                     (NewSet 0),
                   Wrapf (snd (zonePages svc))
                     ''couldn't describe route53 instance profiles for %q in %q''
                     [Account opts, Region opts])) \<and>
         (zonePages svc = (ps1 @ (zs1 @ Z # zs2) # ps2, zerr) \<and>
          (\<forall>z \<in> set (concat ps1 @ zs1). zoneIsManaged z \<longrightarrow> zoneListError svc z = None) \<and>
          zoneIsManaged Z \<and> zoneListError svc Z = Some e \<longrightarrow>
            ListAll NewSet Now opts svc =
              Inr (recorded (stampPages Now 0 (managedPages svc (concat ps1 @ zs1 @ [Z]))) (NewSet 0),
                   Some (Wrapped e ''couldn't describe route53 resources for %q in %q zone %q''
                           [Account opts, Region opts, the (hz_Id Z)])))"
proof (intro conjI impI)
  let ?P = "\<lambda>z. zoneIsManaged z \<longrightarrow> zoneListError svc z = None"
  show "\<exists>s' err. ListAll NewSet Now opts svc = Inr (s', err)"
  proof (cases "\<forall>z \<in> set (concat (fst (zonePages svc))). ?P z")
    case True
    from ListAll_ok [OF True, of NewSet Now opts] show ?thesis by blast
  next
    case False
    then obtain ps1 zs1 Z zs2 ps2 where ps: "fst (zonePages svc) = ps1 @ (zs1 @ Z # zs2) # ps2"
      and before: "\<forall>z \<in> set (concat ps1 @ zs1). ?P z" and Z: "\<not> ?P Z"
      by (rule first_failure)
    from Z obtain e where Z': "zoneIsManaged Z" "zoneListError svc Z = Some e" by auto
    from ps have split: "zonePages svc = (ps1 @ (zs1 @ Z # zs2) # ps2, snd (zonePages svc))"
      by (simp add: prod_eq_iff)
    from ps assms Z'(1) obtain zoneId where "hz_Id Z = Some zoneId" by auto
    with ListAll_fails_at [OF split before Z', of NewSet Now opts] show ?thesis by simp
  qed
next
  assume "\<forall>z \<in> set (concat (fst (zonePages svc))). zoneIsManaged z \<longrightarrow> zoneListError svc z = None"
  then show "ListAll NewSet Now opts svc =
      Inr (recorded (stampPages Now 0 (managedPages svc (concat (fst (zonePages svc))))) (NewSet 0),
           Wrapf (snd (zonePages svc))
             ''couldn't describe route53 instance profiles for %q in %q''
             [Account opts, Region opts])"
    by (rule ListAll_ok)
next
  assume fails: "zonePages svc = (ps1 @ (zs1 @ Z # zs2) # ps2, zerr) \<and>
      (\<forall>z \<in> set (concat ps1 @ zs1). zoneIsManaged z \<longrightarrow> zoneListError svc z = None) \<and>
      zoneIsManaged Z \<and> zoneListError svc Z = Some e"
  with assms obtain zoneId where id: "hz_Id Z = Some zoneId" by auto
  from fails have "ListAll NewSet Now opts svc =
      (case hz_Id Z of
         None \<Rightarrow> Inl NilDereference
       | Some zoneId \<Rightarrow>
           Inr (recorded (stampPages Now 0 (managedPages svc (concat ps1 @ zs1 @ [Z]))) (NewSet 0),
                Some (Wrapped e ''couldn't describe route53 resources for %q in %q zone %q''
                        [Account opts, Region opts, zoneId])))"
    by (intro ListAll_fails_at) simp_all
  with id show "ListAll NewSet Now opts svc =
      Inr (recorded (stampPages Now 0 (managedPages svc (concat ps1 @ zs1 @ [Z]))) (NewSet 0),
           Some (Wrapped e ''couldn't describe route53 resources for %q in %q zone %q''
                   [Account opts, Region opts, the (hz_Id Z)]))"
    by simp
qed


lemma exZonesFailing_facts:
  "zonePages exZonesFailing = ([[exZoneA, exForeignZone]], Some (ServiceError ''Throttling''))"
  "recordPages exZonesFailing (hz_Id exZoneA) = ([[exApi], [exWww, exTxt]], None)"
  by (simp_all add: exZonesFailing_def ex_recordPages)

lemma exFailing_recordPages:
  "recordPages exFailing (hz_Id exZoneA) = ([[exApi], [exWww]], None)"
  "recordPages exFailing (hz_Id exZoneB) = ([[exWww, exApi]], Some (ServiceError ''Throttling''))"
  by (simp_all add: exFailing_def exZoneA_def exZoneB_def)

lemma ex_ids: "hz_Id exZoneA = Some ''ZA''" "hz_Id exZoneB = Some ''ZB''" "hz_Id exZoneC = Some ''ZC''"
  by (simp_all add: exZoneA_def exZoneB_def exZoneC_def)

lemma exFailing_stamps:
  "recorded (stampPages exNow 0 (managedPages exFailing [exZoneA, exForeignZone, exZoneB])) exSet =
     \<lparr>firstSeen =
        [''route53::ZA::A::api.e2e-71149fffac-dba53.test-cncf-aws.k8s.io.'' \<mapsto> 1000,
         ''route53::ZA::A::www.test-cncf-aws.k8s.io.'' \<mapsto> 1001,
         ''route53::ZB::A::www.test-cncf-aws.k8s.io.'' \<mapsto> 1002,
         ''route53::ZB::A::api.e2e-71149fffac-dba53.test-cncf-aws.k8s.io.'' \<mapsto> 1002]\<rparr>"
  by (simp add: managedPages_def ex_managed exFailing_recordPages exNow_def)
     (simp add: recorded_def exSet_def ARN_def StringValue_def exZoneA_def exZoneB_def exApi_def
        exWww_def)

lemma exZonesFailing_stamps:
  "recorded (stampPages exNow 0 (managedPages exZonesFailing [exZoneA, exForeignZone])) exSet =
     \<lparr>firstSeen =
        [''route53::ZA::A::api.e2e-71149fffac-dba53.test-cncf-aws.k8s.io.'' \<mapsto> 1000,
         ''route53::ZA::A::www.test-cncf-aws.k8s.io.'' \<mapsto> 1001,
         ''route53::ZA::TXT::api.e2e-71149fffac-dba53.test-cncf-aws.k8s.io.'' \<mapsto> 1001]\<rparr>"
  by (simp add: managedPages_def ex_managed exZonesFailing_facts exNow_def)
     (simp add: recorded_def exSet_def ARN_def StringValue_def exZoneA_def exApi_def
        exWww_def exTxt_def)

theorem ListAll_returns_the_set_with_the_error_witness:
  "ListAll exNewSet exNow (exOptions False) exFailing =
     Inr (\<lparr>firstSeen =
             [''route53::ZA::A::api.e2e-71149fffac-dba53.test-cncf-aws.k8s.io.'' \<mapsto> 1000,
              ''route53::ZA::A::www.test-cncf-aws.k8s.io.'' \<mapsto> 1001,
              ''route53::ZB::A::www.test-cncf-aws.k8s.io.'' \<mapsto> 1002,
              ''route53::ZB::A::api.e2e-71149fffac-dba53.test-cncf-aws.k8s.io.'' \<mapsto> 1002]\<rparr>,
          Some (Wrapped (ServiceError ''Throttling'')
                  ''couldn't describe route53 resources for %q in %q zone %q''
                  [''123456789012'', ''us-east-1'', ''ZB''])) \<and>
   ListAll exNewSet exNow (exOptions False) exZonesFailing =
     Inr (\<lparr>firstSeen =
             [''route53::ZA::A::api.e2e-71149fffac-dba53.test-cncf-aws.k8s.io.'' \<mapsto> 1000,
              ''route53::ZA::A::www.test-cncf-aws.k8s.io.'' \<mapsto> 1001,
              ''route53::ZA::TXT::api.e2e-71149fffac-dba53.test-cncf-aws.k8s.io.'' \<mapsto> 1001]\<rparr>,
          Some (Wrapped (ServiceError ''Throttling'')
                  ''couldn't describe route53 instance profiles for %q in %q''
                  [''123456789012'', ''us-east-1'']))"
proof -
  have ids: "\<forall>z \<in> set (concat (fst (zonePages exFailing))). zoneIsManaged z \<longrightarrow> hz_Id z \<noteq> None"
    by (simp add: exFailing_zonePages ex_ids ex_managed)
  have ids': "\<forall>z \<in> set (concat (fst (zonePages exZonesFailing))). zoneIsManaged z \<longrightarrow> hz_Id z \<noteq> None"
    by (simp add: exZonesFailing_facts ex_ids ex_managed)
  have failing: "zonePages exFailing = ([[exZoneA, exForeignZone]] @ ([] @ exZoneB # [exZoneC]) # [], None) \<and>
      (\<forall>z \<in> set (concat [[exZoneA, exForeignZone]] @ []).
         zoneIsManaged z \<longrightarrow> zoneListError exFailing z = None) \<and>
      zoneIsManaged exZoneB \<and> zoneListError exFailing exZoneB = Some (ServiceError ''Throttling'')"
    by (simp add: exFailing_zonePages exFailing_listings ex_managed)
  have ok: "\<forall>z \<in> set (concat (fst (zonePages exZonesFailing))).
      zoneIsManaged z \<longrightarrow> zoneListError exZonesFailing z = None"
    by (simp add: exZonesFailing_facts zoneListError_def ex_managed)
  note record_listing = ListAll_returns_the_set_with_the_error [OF ids, where NewSet = exNewSet
      and Now = exNow and opts = "exOptions False"
      and ?ps1.0 = "[[exZoneA, exForeignZone]]" and ?zs1.0 = "[]" and Z = exZoneB
      and ?zs2.0 = "[exZoneC]" and ?ps2.0 = "[]" and zerr = None and e = "ServiceError ''Throttling''"]
  note zone_listing = ListAll_returns_the_set_with_the_error [OF ids', where NewSet = exNewSet
      and Now = exNow and opts = "exOptions False"]
  from record_listing [THEN conjunct2, THEN conjunct2, THEN mp, OF failing] exFailing_stamps
  have 1: "ListAll exNewSet exNow (exOptions False) exFailing =
     Inr (\<lparr>firstSeen =
             [''route53::ZA::A::api.e2e-71149fffac-dba53.test-cncf-aws.k8s.io.'' \<mapsto> 1000,
              ''route53::ZA::A::www.test-cncf-aws.k8s.io.'' \<mapsto> 1001,
              ''route53::ZB::A::www.test-cncf-aws.k8s.io.'' \<mapsto> 1002,
              ''route53::ZB::A::api.e2e-71149fffac-dba53.test-cncf-aws.k8s.io.'' \<mapsto> 1002]\<rparr>,
          Some (Wrapped (ServiceError ''Throttling'')
                  ''couldn't describe route53 resources for %q in %q zone %q''
                  [''123456789012'', ''us-east-1'', ''ZB'']))"
    by (simp add: exNewSet_def exOptions_def ex_ids)
  from zone_listing [THEN conjunct2, THEN conjunct1, THEN mp, OF ok] exZonesFailing_stamps
  have 2: "ListAll exNewSet exNow (exOptions False) exZonesFailing =
     Inr (\<lparr>firstSeen =
             [''route53::ZA::A::api.e2e-71149fffac-dba53.test-cncf-aws.k8s.io.'' \<mapsto> 1000,
              ''route53::ZA::A::www.test-cncf-aws.k8s.io.'' \<mapsto> 1001,
              ''route53::ZA::TXT::api.e2e-71149fffac-dba53.test-cncf-aws.k8s.io.'' \<mapsto> 1001]\<rparr>,
          Some (Wrapped (ServiceError ''Throttling'')
                  ''couldn't describe route53 instance profiles for %q in %q''
                  [''123456789012'', ''us-east-1'']))"
    by (simp add: exNewSet_def exOptions_def exZonesFailing_facts Wrapf_def)
  from 1 2 show ?thesis by (rule conjI)
qed

text \<open>
  Line 195 reads \<^verbatim>\<open>*z.Id\<close> for the message of the error: were a managed zone delivered
  without its id, and the listing of its record sets to fail, \<open>ListAll\<close> would panic.
\<close>

lemma exNoId_facts:
  "zonePages exNoId = ([[exZoneA, exNoIdZone]], None)"
  "recordPages exNoId (hz_Id exZoneA) = ([[exApi, exTxt]], None)"
  "recordPages exNoId None = ([], Some (ServiceError ''InvalidParameter''))"
  "zoneIsManaged exNoIdZone"
  "hz_Id exNoIdZone = None"
  by (simp_all add: exNoId_def exZoneA_def exNoIdZone_def zoneIsManaged_def StringValue_def)

lemma ListAll_panics_without_zone_id:
  "ListAll exNewSet exNow (exOptions False) exNoId = Inl NilDereference"
  by (simp add: ListAll_def ListHostedZonesPages_def ListResourceRecordSetsPages_def Let_def
      exNoId_facts ex_managed recordSetsPageFunc_eq)

end
